theory Spec2Isabelle
  imports Complex_Main "HOL-Library.AList" "HOL-Library.Multiset"
begin

section \<open>Values: Python objects that occur as scores\<close>

text \<open>
  A metric score is a Python object. The aggregation of \<^verbatim>\<open>evaluate_dataset\<close> tells numbers
  from other objects (\<^verbatim>\<open>isinstance(score, (int, float))\<close>) and not-a-number from the other
  floats (\<^verbatim>\<open>np.isnan\<close>), so both distinctions are kept.

  A float is an IEEE 754 binary64 value: a finite value, one of the two infinities, or
  not-a-number. A finite value is the real number it stands for; the arithmetic below rounds
  every exact result to the nearest binary64 value and overflows to an infinity. The sign
  of zero is not modelled.
\<close>

datatype pyfloat = Finite real | PosInf | NegInf | NaN

text \<open>\<^verbatim>\<open>PyInt\<close> also stands for a \<^verbatim>\<open>bool\<close>, a subclass of \<^verbatim>\<open>int\<close> (\<^verbatim>\<open>True\<close> is 1).\<close>

datatype pyval = PyFloat pyfloat | PyInt int | PyNone | PyStr string

datatype exn =
    KeyError string
  | TypeError
  | ValueError string
  | Raised string

text \<open>A \<^verbatim>\<open>dict\<close> with string keys: an association list in insertion order. Assigning to a
  key that is present keeps its place, a new key goes to the end (\<^const>\<open>AList.update\<close>).\<close>

type_synonym 'v dict = "(string \<times> 'v) list"

subsection \<open>Arithmetic of \<^verbatim>\<open>float64\<close>\<close>

text \<open>Rounding to the nearest integer, a tie going to the even one.\<close>

definition round_half_even :: "real \<Rightarrow> int" where
  "round_half_even q =
     (let f = \<lfloor>q\<rfloor>; d = q - of_int f
      in if d < 1 / 2 then f else if 1 / 2 < d then f + 1 else if even f then f else f + 1)"

text \<open>
  Rounding of a real to binary64, to nearest and ties to even: the significand has 53 bits,
  so a value of binary exponent \<open>L\<close> is rounded to a multiple of \<^verbatim>\<open>2**(L-52)\<close>, and to a
  multiple of \<^verbatim>\<open>2**-1074\<close> in the subnormal range; a result of magnitude \<^verbatim>\<open>2**1024\<close> is an
  overflow.
\<close>

definition round64 :: "real \<Rightarrow> pyfloat" where
  "round64 x =
     (if x = 0 then Finite 0
      else
        let e = max (\<lfloor>log 2 \<bar>x\<bar>\<rfloor> - 52) (- 1074);
            r = of_int (round_half_even (x / 2 powi e)) * 2 powi e
        in if 2 ^ 1024 \<le> \<bar>r\<bar> then (if 0 < x then PosInf else NegInf) else Finite r)"

text \<open>Addition: not-a-number absorbs, the two infinities cancel to not-a-number, and the
  sum of two finite values is rounded.\<close>

fun fadd :: "pyfloat \<Rightarrow> pyfloat \<Rightarrow> pyfloat" where
  "fadd NaN y = NaN"
| "fadd x NaN = NaN"
| "fadd PosInf NegInf = NaN"
| "fadd NegInf PosInf = NaN"
| "fadd PosInf y = PosInf"
| "fadd x PosInf = PosInf"
| "fadd NegInf y = NegInf"
| "fadd x NegInf = NegInf"
| "fadd (Finite a) (Finite b) = round64 (a + b)"

text \<open>Division of a total by a count (\<^verbatim>\<open>np.true_divide\<close>, which warns and does not raise):
  \<^verbatim>\<open>0.0 / 0\<close> is not-a-number, another finite total divided by zero is an infinity, and
  a quotient is rounded.\<close>

fun fdiv_count :: "pyfloat \<Rightarrow> nat \<Rightarrow> pyfloat" where
  "fdiv_count NaN cnt = NaN"
| "fdiv_count PosInf cnt = PosInf"
| "fdiv_count NegInf cnt = NegInf"
| "fdiv_count (Finite s) cnt =
     (if cnt = 0 then (if s = 0 then NaN else if 0 < s then PosInf else NegInf)
      else round64 (s / real cnt))"

subsection \<open>The numpy functions the source calls\<close>

text \<open>\<^verbatim>\<open>isinstance(score, (int, float))\<close>.\<close>

fun isinstance_int_float :: "pyval \<Rightarrow> bool" where
  "isinstance_int_float (PyFloat f) = True"
| "isinstance_int_float (PyInt i) = True"
| "isinstance_int_float PyNone = False"
| "isinstance_int_float (PyStr s) = False"

text \<open>
  \<^verbatim>\<open>np.isnan\<close> on one object. An \<^verbatim>\<open>int\<close> that numpy holds in 64 bits (as \<^verbatim>\<open>int64\<close> or
  \<^verbatim>\<open>uint64\<close>) is converted to a float and is not not-a-number; a larger one becomes an
  array of objects, on which \<^verbatim>\<open>np.isnan\<close> raises \<^verbatim>\<open>TypeError\<close>, as it does on \<^verbatim>\<open>None\<close> and
  on a string.
\<close>

fun np_isnan :: "pyval \<Rightarrow> exn + bool" where
  "np_isnan (PyFloat f) = Inr (f = NaN)"
| "np_isnan (PyInt i) = (if - (2 ^ 63) \<le> i \<and> i < 2 ^ 64 then Inr False else Inl TypeError)"
| "np_isnan PyNone = Inl TypeError"
| "np_isnan (PyStr s) = Inl TypeError"

text \<open>The conversion of a number to \<^verbatim>\<open>float64\<close> when numpy builds or casts an array: an
  \<^verbatim>\<open>int\<close> is rounded, so one beyond \<^verbatim>\<open>2**53\<close> may change. The ints that reach this conversion
  in \<^verbatim>\<open>evaluate_dataset\<close> are within 64 bits, \<^verbatim>\<open>np.isnan\<close> having raised on the others.\<close>

fun as_float :: "pyval \<Rightarrow> pyfloat option" where
  "as_float (PyFloat f) = Some f"
| "as_float (PyInt i) = Some (round64 (of_int i))"
| "as_float PyNone = None"
| "as_float (PyStr s) = None"

text \<open>
  The sum of a \<^verbatim>\<open>float64\<close> array is numpy's pairwise summation. Fewer than 8 elements are
  added one after the other. Up to 128 elements are added in 8 running sums, element \<open>i\<close>
  going to sum \<open>i mod 8\<close>, which are then added in pairs, and the elements left over beyond
  a multiple of 8 are added one after the other. A longer array is halved, at a multiple
  of 8, and the sums of the halves are added.
\<close>

definition seq_sum :: "pyfloat \<Rightarrow> pyfloat list \<Rightarrow> pyfloat" where
  "seq_sum res xs = fold (\<lambda>x acc. fadd acc x) xs res"

function block_sums :: "pyfloat list \<Rightarrow> pyfloat list \<Rightarrow> pyfloat list \<times> pyfloat list" where
  "block_sums r xs =
     (if 8 \<le> length xs then block_sums (map2 fadd r (take 8 xs)) (drop 8 xs) else (r, xs))"
  by pat_completeness auto
termination
  by (relation "measure (\<lambda>(r, xs). length xs)") auto

definition combine8 :: "pyfloat list \<Rightarrow> pyfloat" where
  "combine8 r =
     fadd (fadd (fadd (r ! 0) (r ! 1)) (fadd (r ! 2) (r ! 3)))
          (fadd (fadd (r ! 4) (r ! 5)) (fadd (r ! 6) (r ! 7)))"

function pairwise_sum :: "pyfloat list \<Rightarrow> pyfloat" where
  "pairwise_sum xs =
     (if length xs < 8 then seq_sum (Finite 0) xs
      else if length xs \<le> 128 then
        (case block_sums (take 8 xs) (drop 8 xs) of (r, rest) \<Rightarrow> seq_sum (combine8 r) rest)
      else
        (let n2 = length xs div 2 - (length xs div 2) mod 8
         in fadd (pairwise_sum (take n2 xs)) (pairwise_sum (drop n2 xs))))"
  by pat_completeness auto
termination
  by (relation "measure length") auto

text \<open>The sum of an array of integers as \<^verbatim>\<open>float64\<close> (\<^verbatim>\<open>np.mean\<close> asks for that type): the
  elements are cast in buffers of 8192, and the pairwise sum of each buffer is added to
  the total.\<close>

function chunked_sum :: "pyfloat \<Rightarrow> pyfloat list \<Rightarrow> pyfloat" where
  "chunked_sum res xs =
     (if xs = [] then res
      else chunked_sum (fadd res (pairwise_sum (take 8192 xs))) (drop 8192 xs))"
  by pat_completeness auto
termination
  by (relation "measure (\<lambda>(res, xs). length xs)") auto

declare block_sums.simps [simp del] pairwise_sum.simps [simp del] chunked_sum.simps [simp del]

text \<open>A list of Python numbers becomes an array of integers when all are ints that fit
  \<^verbatim>\<open>int64\<close>, or all are ints beyond it that fit \<^verbatim>\<open>uint64\<close>; the empty list and every other
  list of numbers become an array of \<^verbatim>\<open>float64\<close>.\<close>

fun fits_int64 :: "pyval \<Rightarrow> bool" where
  "fits_int64 (PyInt i) = (- (2 ^ 63) \<le> i \<and> i < 2 ^ 63)"
| "fits_int64 v = False"

fun fits_uint64_only :: "pyval \<Rightarrow> bool" where
  "fits_uint64_only (PyInt i) = (2 ^ 63 \<le> i \<and> i < 2 ^ 64)"
| "fits_uint64_only v = False"

definition integer_array :: "pyval list \<Rightarrow> bool" where
  "integer_array scores \<longleftrightarrow>
     scores \<noteq> [] \<and> (list_all fits_int64 scores \<or> list_all fits_uint64_only scores)"

text \<open>
  \<^verbatim>\<open>np.nanmean\<close> of a Python list: the list becomes an array (\<^verbatim>\<open>TypeError\<close> when an element
  is not a number). On an array of integers the result is \<^verbatim>\<open>np.mean\<close>: the sum as
  \<^verbatim>\<open>float64\<close>, divided by the number of elements. On an array of \<^verbatim>\<open>float64\<close> each
  not-a-number is replaced by zero, and the sum, which starts from zero, is divided by the
  number of elements that were not not-a-number.
\<close>

definition np_nanmean :: "pyval list \<Rightarrow> exn + pyfloat" where
  "np_nanmean scores =
     (case those (map as_float scores) of
        None \<Rightarrow> Inl TypeError
      | Some arr \<Rightarrow>
          if integer_array scores
          then Inr (fdiv_count (chunked_sum (Finite 0) arr) (length arr))
          else Inr (fdiv_count
                      (fadd (Finite 0)
                         (pairwise_sum (map (\<lambda>x. if x = NaN then Finite 0 else x) arr)))
                      (length (filter (\<lambda>x. x \<noteq> NaN) arr))))"

section \<open>Aggregation in \<^verbatim>\<open>evaluate_dataset\<close>\<close>

text \<open>\<^verbatim>\<open>results = {metric: [] for metric in metrics}\<close>.\<close>

definition init_results :: "string list \<Rightarrow> pyval list dict" where
  "init_results metrics = fold (\<lambda>metric d. AList.update metric [] d) metrics []"

text \<open>
  The inner loop, over \<^verbatim>\<open>sample.items()\<close>:
  \<^verbatim>\<open>if isinstance(score, (int, float)) and not np.isnan(score): results[metric].append(score)\<close>.
  The \<^verbatim>\<open>and\<close> does not evaluate \<^verbatim>\<open>np.isnan\<close> on an object that is not a number, and
  \<^verbatim>\<open>results[metric]\<close> raises \<^verbatim>\<open>KeyError\<close> on a name that was not requested.
\<close>

fun add_items :: "pyval dict \<Rightarrow> pyval list dict \<Rightarrow> exn + pyval list dict" where
  "add_items [] results = Inr results"
| "add_items ((metric, score) # items) results =
     (if isinstance_int_float score then
        (case np_isnan score of
           Inl e \<Rightarrow> Inl e
         | Inr nan \<Rightarrow>
             if nan then add_items items results
             else
               (case map_of results metric of
                  None \<Rightarrow> Inl (KeyError metric)
                | Some scores \<Rightarrow>
                    add_items items (AList.update metric (scores @ [score]) results)))
      else add_items items results)"

text \<open>The outer loop, \<^verbatim>\<open>for sample in sample_results\<close>.\<close>

fun add_samples :: "pyval dict list \<Rightarrow> pyval list dict \<Rightarrow> exn + pyval list dict" where
  "add_samples [] results = Inr results"
| "add_samples (sample # rest) results =
     (case add_items sample results of
        Inl e \<Rightarrow> Inl e
      | Inr results' \<Rightarrow> add_samples rest results')"

text \<open>\<^verbatim>\<open>{metric: np.nanmean(scores) for metric, scores in results.items()}\<close>; the keys of
  \<^verbatim>\<open>results\<close> are distinct, so every item makes a new key of the returned dict.\<close>

fun mean_items :: "pyval list dict \<Rightarrow> exn + pyfloat dict" where
  "mean_items [] = Inr []"
| "mean_items ((metric, scores) # items) =
     (case np_nanmean scores of
        Inl e \<Rightarrow> Inl e
      | Inr mu \<Rightarrow>
          (case mean_items items of
             Inl e \<Rightarrow> Inl e
           | Inr d \<Rightarrow> Inr ((metric, mu) # d)))"

text \<open>Lines 56 to 61: the aggregation of the collected per-sample results.\<close>

definition aggregate :: "string list \<Rightarrow> pyval dict list \<Rightarrow> exn + pyfloat dict" where
  "aggregate metrics sample_results =
     (case add_samples sample_results (init_results metrics) of
        Inl e \<Rightarrow> Inl e
      | Inr results \<Rightarrow> mean_items results)"

section \<open>Concurrency: completion orders\<close>

text \<open>
  The event loop runs the coroutines of one \<^verbatim>\<open>asyncio.as_completed\<close> or \<^verbatim>\<open>asyncio.gather\<close>
  call interleaved, on one thread; what the caller sees of the interleaving is the order
  in which they complete. That order is a parameter: a list of picks, each choosing (modulo
  their number) which of the still pending tasks completes next. When the picks run out,
  the pending tasks complete in the order of submission.
\<close>

function as_completed :: "nat list \<Rightarrow> 'a list \<Rightarrow> 'a list" where
  "as_completed picks [] = []"
| "as_completed [] (t # ts) = t # ts"
| "as_completed (p # picks) (t # ts) =
     (let k = p mod length (t # ts)
      in (t # ts) ! k # as_completed picks (take k (t # ts) @ drop (Suc k) (t # ts)))"
  by pat_completeness auto
termination
  by (relation "measure (\<lambda>(picks, ts). length ts)") auto

text \<open>
  Awaiting futures one after the other and appending each result
  (\<^verbatim>\<open>result = await future; sample_results.append(result)\<close>): the first future that holds an
  exception raises it, and the loop is left.
\<close>

fun await_each :: "(exn + 'a) list \<Rightarrow> exn + 'a list" where
  "await_each [] = Inr []"
| "await_each (Inl e # futures) = Inl e"
| "await_each (Inr result # futures) =
     (case await_each futures of
        Inl e \<Rightarrow> Inl e
      | Inr results \<Rightarrow> Inr (result # results))"

text \<open>
  \<^verbatim>\<open>await asyncio.gather(*aws)\<close>: every coroutine of the arguments is made a task and run,
  which is what the parameter \<open>run\<close> gives for it. The outcome is the list of the results
  in the order of the arguments when all succeed, and otherwise the exception of the first
  one to fail, in the order of completion. A coroutine that is never awaited does not run:
  the first component is the list of the coroutines that the call has run.
\<close>

definition gather :: "('c \<Rightarrow> exn + 'a) \<Rightarrow> nat list \<Rightarrow> 'c list \<Rightarrow> 'c list \<times> (exn + 'a list)" where
  "gather run picks aws =
     (aws,
      case await_each (as_completed picks (map run aws)) of
        Inl e \<Rightarrow> Inl e
      | Inr _ \<Rightarrow> await_each (map run aws))"

section \<open>\<^verbatim>\<open>evaluate_sample\<close>\<close>

text \<open>
  The four metric computers are imported from the module \<^verbatim>\<open>.metrics\<close>. A call of one of them
  makes a coroutine, which is a value of \<open>call\<close> holding the arguments it was given and
  does nothing until it is awaited; awaiting it runs the metric computer, which gives a
  score or raises: this is the parameter \<open>run\<close> of the functions below.
  The types \<open>'l\<close> and \<open>'e\<close> are those of the judge model and of the embedding model.
\<close>

datatype ('l, 'e) call =
    compute_rouge_score string string
  | compute_answer_correctness string string string 'l 'e
  | compute_coverage_score string string string 'l
  | compute_faithfulness_score string string "string list" 'l

text \<open>Lines 75 to 92: the dict \<^verbatim>\<open>tasks\<close>.\<close>

definition sample_tasks ::
  "string \<Rightarrow> string \<Rightarrow> string list \<Rightarrow> string \<Rightarrow> string list \<Rightarrow> 'l \<Rightarrow> 'e \<Rightarrow> ('l, 'e) call dict"
where
  "sample_tasks question answer contexts ground_truth metrics llm embeddings =
     (let tasks = [];
          tasks = (if ''rouge_score'' \<in> set metrics
                   then AList.update ''rouge_score''
                          (compute_rouge_score answer ground_truth) tasks
                   else tasks);
          tasks = (if ''answer_correctness'' \<in> set metrics
                   then AList.update ''answer_correctness''
                          (compute_answer_correctness question answer ground_truth llm embeddings)
                          tasks
                   else tasks);
          tasks = (if ''coverage_score'' \<in> set metrics
                   then AList.update ''coverage_score''
                          (compute_coverage_score question ground_truth answer llm) tasks
                   else tasks);
          tasks = (if ''faithfulness'' \<in> set metrics
                   then AList.update ''faithfulness''
                          (compute_faithfulness_score question answer contexts llm) tasks
                   else tasks)
      in tasks)"

text \<open>
  Lines 94 to 99: the coroutines of \<^verbatim>\<open>tasks.values()\<close> are handed to \<^verbatim>\<open>asyncio.gather\<close>, and
  the result at index \<open>i\<close> goes under the key at index \<open>i\<close>. The function returns the
  coroutines that were run, which are the metric computers it invoked, beside its outcome:
  the mapping from metric name to score, or the exception that leaves it.
\<close>

definition evaluate_sample ::
  "(('l, 'e) call \<Rightarrow> exn + pyval) \<Rightarrow> nat list \<Rightarrow>
   string \<Rightarrow> string \<Rightarrow> string list \<Rightarrow> string \<Rightarrow> string list \<Rightarrow> 'l \<Rightarrow> 'e \<Rightarrow>
   ('l, 'e) call list \<times> (exn + pyval dict)"
where
  "evaluate_sample run picks question answer contexts ground_truth metrics llm embeddings =
     (let tasks = sample_tasks question answer contexts ground_truth metrics llm embeddings
      in case gather run picks (map snd tasks) of
           (invoked, Inl e) \<Rightarrow> (invoked, Inl e)
         | (invoked, Inr task_results) \<Rightarrow>
             (invoked,
              Inr (fold (\<lambda>(i, metric) results. AList.update metric (task_results ! i) results)
                        (enumerate 0 (map fst tasks)) [])))"

section \<open>\<^verbatim>\<open>evaluate_dataset\<close>\<close>

text \<open>
  A \<^verbatim>\<open>Dataset\<close> is a table: its columns have one length. It is the list of its rows, and
  \<^verbatim>\<open>dataset["question"]\<close> is the list of the first fields. The lines that the function
  prints (the progress after each sample) are left out, here and in \<^verbatim>\<open>main\<close>.
\<close>

record row =
  col_question :: string
  col_answer :: string
  col_contexts :: "string list"
  col_ground_truth :: string

text \<open>The completion orders of one call of \<^verbatim>\<open>evaluate_dataset\<close>: that of the samples, and
  for each sample that of its metric computations.\<close>

record schedule =
  sample_picks :: "nat list"
  metric_picks :: "nat \<Rightarrow> nat list"

text \<open>Lines 25 to 53: one task per sample, and the results in the order of completion.\<close>

definition collect_results ::
  "(('l, 'e) call \<Rightarrow> exn + pyval) \<Rightarrow> schedule \<Rightarrow> row list \<Rightarrow> string list \<Rightarrow> 'l \<Rightarrow> 'e \<Rightarrow>
   ('l, 'e) call list list \<times> (exn + pyval dict list)"
where
  "collect_results run sched dataset metrics llm embeddings =
     (let questions = map col_question dataset;
          answers = map col_answer dataset;
          contexts_list = map col_contexts dataset;
          ground_truths = map col_ground_truth dataset;
          total_samples = length questions;
          tasks = map (\<lambda>i. evaluate_sample run (metric_picks sched i)
                             (questions ! i) (answers ! i) (contexts_list ! i)
                             (ground_truths ! i) metrics llm embeddings)
                      [0..<total_samples]
      in (map fst tasks, await_each (as_completed (sample_picks sched) (map snd tasks))))"

text \<open>The first component is, for each sample, the metric computers invoked for it. The
  samples are listed by their index in the dataset, which is not the order in time: the
  event loop starts the evaluations of the samples of one call in an order of its own.\<close>

definition evaluate_dataset ::
  "(('l, 'e) call \<Rightarrow> exn + pyval) \<Rightarrow> schedule \<Rightarrow> row list \<Rightarrow> string list \<Rightarrow> 'l \<Rightarrow> 'e \<Rightarrow>
   ('l, 'e) call list list \<times> (exn + pyfloat dict)"
where
  "evaluate_dataset run sched dataset metrics llm embeddings =
     (case collect_results run sched dataset metrics llm embeddings of
        (invoked, Inl e) \<Rightarrow> (invoked, Inl e)
      | (invoked, Inr sample_results) \<Rightarrow> (invoked, aggregate metrics sample_results))"

section \<open>\<^verbatim>\<open>main\<close>\<close>

text \<open>The command line, as \<^verbatim>\<open>argparse\<close> hands it to \<^verbatim>\<open>main\<close>.\<close>

record args =
  model :: string
  base_url :: string
  bge_model :: string
  data_file :: string
  output_file :: string

text \<open>The judge model: \<^verbatim>\<open>ChatOpenAI(model, base_url, api_key, temperature, max_retries,
  timeout)\<close>. The embedding model:
  \<^verbatim>\<open>LangchainEmbeddingsWrapper(embeddings=HuggingFaceBgeEmbeddings(model_name=...))\<close>.\<close>

datatype llm = ChatOpenAI string string "string option" real nat nat

text \<open>The call of the constructor. The client of the OpenAI library that it builds raises
  \<^verbatim>\<open>OpenAIError\<close> when it finds no credentials: when the key it is given is \<^verbatim>\<open>None\<close> or
  empty. The constructor does no input or output.\<close>

definition new_ChatOpenAI ::
  "string \<Rightarrow> string \<Rightarrow> string option \<Rightarrow> real \<Rightarrow> nat \<Rightarrow> nat \<Rightarrow> exn + llm"
where
  "new_ChatOpenAI model_name url api_key temperature max_retries timeout =
     (case api_key of
        None \<Rightarrow> Inl (Raised ''OpenAIError'')
      | Some key \<Rightarrow>
          if key = [] then Inl (Raised ''OpenAIError'')
          else Inr (ChatOpenAI model_name url (Some key) temperature max_retries timeout))"

datatype bge = HuggingFaceBgeEmbeddings string

datatype embeddings = LangchainEmbeddingsWrapper bge

text \<open>One object of the input file. That every object has the four fields is not checked by
  the source (a missing one raises \<^verbatim>\<open>KeyError\<close>); here the file reader gives objects that
  have them.\<close>

record item =
  item_question :: string
  item_gold_answer :: string
  item_generated_answer :: string
  item_context :: "string list"

type_synonym report = "pyfloat dict dict"

text \<open>What \<^verbatim>\<open>main\<close> does to the world outside: it loads the embedding model, reads the
  input file, invokes metric computers and writes the report. The question types follow
  each other in time, one being evaluated to its end before the next. Within a question
  type the invocations are listed by the index of the sample and, for a sample, in the
  order of the tests of \<^verbatim>\<open>evaluate_sample\<close>; the order in time in which the event loop
  starts them is not modelled.\<close>

datatype event =
    Load_embedding_model string
  | Read_file string
  | Invoke "(llm, embeddings) call"
  | Write_file string report

text \<open>The world \<^verbatim>\<open>main\<close> runs in: the process environment, what opening and parsing a
  file gives, what awaiting a metric computation gives, and for each question type the
  completion orders of its evaluation.\<close>

record world =
  environ :: "string \<rightharpoonup> string"
  json_load :: "string \<Rightarrow> exn + (string \<rightharpoonup> item list)"
  run_metric :: "(llm, embeddings) call \<Rightarrow> exn + pyval"
  schedules :: "string \<Rightarrow> schedule"

text \<open>Lines 127 to 132.\<close>

definition metric_config :: "string list dict" where
  "metric_config =
     [(''type1'', [''rouge_score'', ''answer_correctness'']),
      (''type2'', [''rouge_score'', ''answer_correctness'']),
      (''type3'', [''answer_correctness'', ''coverage_score'']),
      (''type4'', [''answer_correctness'', ''coverage_score'', ''faithfulness''])]"

text \<open>Lines 143 to 155: the dataset of one question type.\<close>

definition make_dataset :: "item list \<Rightarrow> row list" where
  "make_dataset items =
     map (\<lambda>item. \<lparr>col_question = item_question item,
                   col_answer = item_generated_answer item,
                   col_contexts = item_context item,
                   col_ground_truth = item_gold_answer item\<rparr>) items"

text \<open>Lines 137 to 168: the loop over the question types. \<^verbatim>\<open>file_data[question_type]\<close> and
  \<^verbatim>\<open>metric_config[question_type]\<close> raise \<^verbatim>\<open>KeyError\<close> on a missing key.\<close>

fun evaluate_types ::
  "world \<Rightarrow> (string \<rightharpoonup> item list) \<Rightarrow> llm \<Rightarrow> embeddings \<Rightarrow> string list \<Rightarrow> report \<Rightarrow>
   event list \<times> (exn + report)"
where
  "evaluate_types w file_data llm embedding [] all_results = ([], Inr all_results)"
| "evaluate_types w file_data llm embedding (question_type # types) all_results =
     (case file_data question_type of
        None \<Rightarrow> ([], Inl (KeyError question_type))
      | Some items \<Rightarrow>
          (case map_of metric_config question_type of
             None \<Rightarrow> ([], Inl (KeyError question_type))
           | Some metrics \<Rightarrow>
               (case evaluate_dataset (run_metric w) (schedules w question_type)
                       (make_dataset items) metrics llm embedding of
                  (invoked, Inl e) \<Rightarrow> (map Invoke (concat invoked), Inl e)
                | (invoked, Inr results) \<Rightarrow>
                    (case evaluate_types w file_data llm embedding types
                            (AList.update question_type results all_results) of
                       (events, outcome) \<Rightarrow> (map Invoke (concat invoked) @ events, outcome)))))"

text \<open>Lines 107 to 184, all of \<^verbatim>\<open>main\<close> after the check of the API key. The judge model
  is made first, and nothing has been done when its constructor raises. An empty
  \<^verbatim>\<open>args.output_file\<close> is false, and then no file is written.\<close>

definition main_body :: "world \<Rightarrow> args \<Rightarrow> event list \<times> (exn + report)" where
  "main_body w args =
     (case new_ChatOpenAI (model args) (base_url args) (environ w ''OPENAI_API_KEY'') 0 3 30 of
        Inl e \<Rightarrow> ([], Inl e)
      | Inr llm \<Rightarrow>
          (let embedding = LangchainEmbeddingsWrapper (HuggingFaceBgeEmbeddings (bge_model args))
           in case json_load w (data_file args) of
                Inl e \<Rightarrow>
                  ([Load_embedding_model (bge_model args), Read_file (data_file args)], Inl e)
              | Inr file_data \<Rightarrow>
                  (case evaluate_types w file_data llm embedding
                          [''type1'', ''type2'', ''type3'', ''type4''] [] of
                     (events, Inl e) \<Rightarrow>
                       (Load_embedding_model (bge_model args) # Read_file (data_file args)
                          # events,
                        Inl e)
                   | (events, Inr all_results) \<Rightarrow>
                       (Load_embedding_model (bge_model args) # Read_file (data_file args)
                          # events
                          @ (if output_file args \<noteq> []
                             then [Write_file (output_file args) all_results] else []),
                        Inr all_results))))"

text \<open>Lines 104 and 105: \<^verbatim>\<open>os.getenv\<close> gives \<^verbatim>\<open>None\<close> for a variable that is not set, and
  \<^verbatim>\<open>not\<close> is true of \<^verbatim>\<open>None\<close> and of the empty string.\<close>

definition main :: "world \<Rightarrow> args \<Rightarrow> event list \<times> (exn + report)" where
  "main w args =
     (if (case environ w ''OPENAI_API_KEY'' of None \<Rightarrow> True | Some v \<Rightarrow> v = [])
      then ([], Inl (ValueError ''OPENAI_API_KEY environment variable is not set''))
      else main_body w args)"

section \<open>Notions of the specification\<close>

text \<open>A well-defined numeric score: a number that is not not-a-number.\<close>

fun well_defined :: "pyval \<Rightarrow> bool" where
  "well_defined (PyFloat f) = (f \<noteq> NaN)"
| "well_defined (PyInt i) = True"
| "well_defined PyNone = False"
| "well_defined (PyStr s) = False"

text \<open>The well-defined scores that one per-sample result holds for a metric, and those
  gathered for it across the per-sample results.\<close>

definition scores_of :: "string \<Rightarrow> pyval dict \<Rightarrow> pyval list" where
  "scores_of m items = map snd (filter (\<lambda>(k, v). k = m \<and> well_defined v) items)"

definition collected :: "string \<Rightarrow> pyval dict list \<Rightarrow> pyval list" where
  "collected m rs = concat (map (scores_of m) rs)"

text \<open>The value of a number as a float.\<close>

fun float_of :: "pyval \<Rightarrow> pyfloat" where
  "float_of (PyFloat f) = f"
| "float_of (PyInt i) = round64 (of_int i)"
| "float_of PyNone = NaN"
| "float_of (PyStr s) = NaN"

text \<open>The float that \<^verbatim>\<open>np.nanmean\<close> returns for a list of numbers.\<close>

definition nanmean_of :: "pyval list \<Rightarrow> pyfloat" where
  "nanmean_of scores = (case np_nanmean scores of Inl e \<Rightarrow> NaN | Inr mu \<Rightarrow> mu)"

text \<open>
  Reals whose sums are computed without rounding, in whatever order they are added: all
  are multiples of one power of two \<^verbatim>\<open>2**q\<close> that binary64 has, and the sum of their
  magnitudes is at most \<^verbatim>\<open>2**53\<close> such multiples. Scores with at most \<open>k\<close> binary digits
  after the point are of this kind (\<open>q = - k\<close>) as long as their magnitudes sum to at most
  \<^verbatim>\<open>2**(53-k)\<close>.
\<close>

definition on_grid :: "int \<Rightarrow> real \<Rightarrow> bool" where
  "on_grid q v \<longleftrightarrow> v / 2 powi q = of_int \<lfloor>v / 2 powi q\<rfloor>"

definition exact_grid :: "int \<Rightarrow> real list \<Rightarrow> bool" where
  "exact_grid q vs \<longleftrightarrow>
     - 1074 \<le> q \<and> q \<le> 970 \<and> list_all (on_grid q) vs \<and>
     sum_list (map abs vs) \<le> 2 ^ 53 * 2 powi q"

text \<open>An item of a per-sample result that the aggregation loop passes without raising: its
  score is not a number, or is not-a-number, or is a number that numpy holds and whose
  metric is a key of \<^verbatim>\<open>results\<close>.\<close>

fun accepted :: "string set \<Rightarrow> string \<times> pyval \<Rightarrow> bool" where
  "accepted keys (metric, score) =
     (\<not> isinstance_int_float score \<or> np_isnan score = Inr True \<or>
      (np_isnan score = Inr False \<and> metric \<in> keys))"

text \<open>The four metric names that \<^verbatim>\<open>evaluate_sample\<close> knows, in the order of its tests.\<close>

definition supported :: "string list" where
  "supported = [''rouge_score'', ''answer_correctness'', ''coverage_score'', ''faithfulness'']"

text \<open>The metric that a call of a metric computer computes, and whether the call is handed
  the judge model or the embedding model.\<close>

fun metric_of :: "('l, 'e) call \<Rightarrow> string" where
  "metric_of (compute_rouge_score a g) = ''rouge_score''"
| "metric_of (compute_answer_correctness q a g l e) = ''answer_correctness''"
| "metric_of (compute_coverage_score q g a l) = ''coverage_score''"
| "metric_of (compute_faithfulness_score q a c l) = ''faithfulness''"

fun uses_llm :: "('l, 'e) call \<Rightarrow> bool" where
  "uses_llm (compute_rouge_score a g) = False"
| "uses_llm (compute_answer_correctness q a g l e) = True"
| "uses_llm (compute_coverage_score q g a l) = True"
| "uses_llm (compute_faithfulness_score q a c l) = True"

fun uses_embeddings :: "('l, 'e) call \<Rightarrow> bool" where
  "uses_embeddings (compute_rouge_score a g) = False"
| "uses_embeddings (compute_answer_correctness q a g l e) = True"
| "uses_embeddings (compute_coverage_score q g a l) = False"
| "uses_embeddings (compute_faithfulness_score q a c l) = False"

text \<open>The evaluation of the sample at index \<open>i\<close> of a dataset, as \<^verbatim>\<open>evaluate_dataset\<close>
  submits it.\<close>

definition sample_task ::
  "(('l, 'e) call \<Rightarrow> exn + pyval) \<Rightarrow> schedule \<Rightarrow> row list \<Rightarrow> string list \<Rightarrow> 'l \<Rightarrow> 'e \<Rightarrow> nat \<Rightarrow>
   ('l, 'e) call list \<times> (exn + pyval dict)"
where
  "sample_task run sched dataset metrics llm embeddings i =
     evaluate_sample run (metric_picks sched i)
       (col_question (dataset ! i)) (col_answer (dataset ! i)) (col_contexts (dataset ! i))
       (col_ground_truth (dataset ! i)) metrics llm embeddings"

text \<open>A score that numpy holds: any object but an \<^verbatim>\<open>int\<close> beyond 64 bits.\<close>

fun held_by_numpy :: "pyval \<Rightarrow> bool" where
  "held_by_numpy (PyInt i) = (- (2 ^ 63) \<le> i \<and> i < 2 ^ 64)"
| "held_by_numpy v = True"

text \<open>The metric computers that \<^verbatim>\<open>main\<close> invokes for one question type: those that
  \<^verbatim>\<open>evaluate_dataset\<close> invokes on the dataset of the type with the metrics that
  \<^verbatim>\<open>metric_config\<close> gives for it.\<close>

definition group_invocations ::
  "world \<Rightarrow> (string \<rightharpoonup> item list) \<Rightarrow> llm \<Rightarrow> embeddings \<Rightarrow> string \<Rightarrow> event list"
where
  "group_invocations w file_data llm embedding question_type =
     (case (file_data question_type, map_of metric_config question_type) of
        (Some items, Some metrics) \<Rightarrow>
          map Invoke (concat (fst (evaluate_dataset (run_metric w) (schedules w question_type)
                                     (make_dataset items) metrics llm embedding)))
      | _ \<Rightarrow> [])"

text \<open>A world and a command line to run \<^verbatim>\<open>main\<close> on: the API key is set, the input file has
  one sample, of the third question type, and every metric computation gives the score 1.\<close>

definition example_world :: world where
  "example_world =
     \<lparr>environ = [''OPENAI_API_KEY'' \<mapsto> ''sk-test''],
      json_load = (\<lambda>path. Inr [''type1'' \<mapsto> [], ''type2'' \<mapsto> [],
         ''type3'' \<mapsto> [\<lparr>item_question = ''q'', item_gold_answer = ''g'',
                          item_generated_answer = ''a'', item_context = [''c'']\<rparr>],
         ''type4'' \<mapsto> []]),
      run_metric = (\<lambda>c. Inr (PyFloat (Finite 1))),
      schedules = (\<lambda>t. \<lparr>sample_picks = [], metric_picks = (\<lambda>i. [])\<rparr>)\<rparr>"

definition example_args :: args where
  "example_args =
     \<lparr>model = ''gpt-4-turbo'', base_url = ''https://api.openai.com/v1'',
      bge_model = ''BAAI/bge-large-en-v1.5'', data_file = ''data.json'',
      output_file = ''evaluation_results.json''\<rparr>"

section \<open>Properties of the arithmetic of \<^verbatim>\<open>float64\<close>\<close>

lemma round_half_even_int [simp]: "round_half_even (of_int k) = k"
  by (simp add: round_half_even_def)

lemma floor_log2_eq:
  assumes "2 powi k \<le> x" and "x < 2 powi (k + 1)"
  shows "\<lfloor>log 2 x\<rfloor> = k"
proof -
  have pos: "0 < x" using assms(1) by (smt (verit) zero_less_power_int)
  have "(2::real) powr (of_int k) = 2 powi k" and "(2::real) powr (of_int (k + 1)) = 2 powi (k + 1)"
    by (simp_all add: powr_real_of_int' del: of_int_add)
  then show ?thesis
    using assms floor_log_eq_powr_iff [of x 2 k] pos by simp
qed

lemma round64_at:
  assumes "2 powi k \<le> \<bar>x\<bar>" and "\<bar>x\<bar> < 2 powi (k + 1)"
  shows "round64 x =
     (let e = max (k - 52) (- 1074);
          r = of_int (round_half_even (x / 2 powi e)) * 2 powi e
      in if 2 ^ 1024 \<le> \<bar>r\<bar> then (if 0 < x then PosInf else NegInf) else Finite r)"
proof -
  have "x \<noteq> 0" using assms(1) by (smt (verit) zero_less_power_int abs_zero)
  then show ?thesis
    by (simp add: round64_def floor_log2_eq [OF assms])
qed

lemma powi_split: "q \<le> e \<Longrightarrow> (2::real) powi e = 2 ^ nat (e - q) * 2 powi q"
proof -
  assume le: "q \<le> e"
  have "(2::real) powi (int (nat (e - q)) + q) = 2 powi int (nat (e - q)) * 2 powi q"
    by (rule power_int_add) simp
  moreover have "int (nat (e - q)) + q = e" using le by simp
  ultimately show ?thesis by (simp only: power_int_of_nat)
qed

lemma log2_powi: "log 2 (2 powi n) = of_int n"
proof -
  have "(2::real) powr (of_int n) = 2 powi n"
    by (rule powr_real_of_int') simp_all
  then have "log 2 (2 powi n) = log 2 (2 powr of_int n)"
    by simp
  then show ?thesis by simp
qed

lemma floor_log2_upper:
  assumes "0 < x" and "x \<le> 2 powi n"
  shows "\<lfloor>log 2 x\<rfloor> \<le> n"
proof -
  have "log 2 x \<le> log 2 (2 powi n)"
    using assms by simp
  then have "log 2 x \<le> of_int n"
    by (simp only: log2_powi)
  then have "log 2 x < of_int n + 1" by linarith
  then show ?thesis
    by (simp add: floor_le_iff)
qed

lemma round_grid:
  assumes x: "x = of_int k * 2 powi q" and e: "e \<le> q"
  shows "of_int (round_half_even (x / 2 powi e)) * 2 powi e = x"
proof -
  have "x / 2 powi e = of_int k * 2 ^ nat (q - e)"
    unfolding x powi_split [OF e] by simp
  also have "\<dots> = of_int (k * 2 ^ nat (q - e))"
    by simp
  finally have "round_half_even (x / 2 powi e) = k * 2 ^ nat (q - e)"
    by (simp only: round_half_even_int)
  then have "of_int (round_half_even (x / 2 powi e)) * 2 powi e =
             of_int k * (2 ^ nat (q - e) * (2::real) powi e)"
    by simp
  also have "\<dots> = x"
    unfolding x powi_split [OF e, symmetric] ..
  finally show ?thesis .
qed

lemma floor_log2_lower:
  assumes "0 < x"
  shows "2 powi \<lfloor>log 2 x\<rfloor> \<le> x"
proof -
  have "(2::real) powr (of_int \<lfloor>log 2 x\<rfloor>) = 2 powi \<lfloor>log 2 x\<rfloor>"
    by (rule powr_real_of_int') simp_all
  moreover have "(2::real) powr (of_int \<lfloor>log 2 x\<rfloor>) \<le> x"
    using floor_log_eq_powr_iff [of x 2 "\<lfloor>log 2 x\<rfloor>"] assms by simp
  ultimately show ?thesis by simp
qed

lemma round64_exact:
  assumes x: "x = of_int k * 2 powi q" and k: "\<bar>k\<bar> \<le> 2 ^ 53"
    and q: "- 1074 \<le> q" "q \<le> 970"
  shows "round64 x = Finite x"
proof (cases "x = 0")
  case True
  then show ?thesis by (simp add: round64_def)
next
  case False
  define L where "L = \<lfloor>log 2 \<bar>x\<bar>\<rfloor>"
  define e where "e = max (L - 52) (- 1074)"
  have pos: "0 < \<bar>x\<bar>" using False by simp
  have absx: "\<bar>x\<bar> = of_int \<bar>k\<bar> * 2 powi q"
    by (simp add: x abs_mult)
  have "(of_int \<bar>k\<bar> :: real) \<le> of_int (2 ^ 53)"
    using k by (simp only: of_int_le_iff)
  then have kr: "(of_int \<bar>k\<bar> :: real) \<le> 2 ^ 53" by simp
  have bound: "\<bar>x\<bar> \<le> 2 ^ 53 * 2 powi q"
    unfolding absx using kr by (intro mult_right_mono) simp_all
  have p53: "(2::real) ^ 53 * 2 powi q = 2 powi (q + 53)"
    using powi_split [of q "q + 53"] by simp
  have L: "L \<le> q + 53"
    unfolding L_def using bound by (intro floor_log2_upper [OF pos]) (simp only: p53)
  have grid: "of_int (round_half_even (x / 2 powi e)) * 2 powi e = x"
  proof (cases "L \<le> q + 52")
    case True
    then have "e \<le> q" using q by (simp add: e_def)
    then show ?thesis by (rule round_grid [OF x])
  next
    case False
    with L have Leq: "L = q + 53" by simp
    have "2 powi (q + 53) \<le> \<bar>x\<bar>"
      using floor_log2_lower [OF pos] by (simp add: L_def [symmetric] Leq)
    moreover have "\<bar>x\<bar> \<le> 2 powi (q + 53)"
      using bound by (simp only: p53)
    ultimately have "\<bar>x\<bar> = 2 powi (q + 53)"
      by (rule order_antisym [rotated])
    then have "\<bar>x\<bar> = 2 ^ 53 * 2 powi q"
      by (simp only: p53)
    then have "(of_int \<bar>k\<bar> :: real) = 2 ^ 53"
      unfolding absx by simp
    then have "(of_int \<bar>k\<bar> :: real) = of_int (2 ^ 53)" by simp
    then have kk: "\<bar>k\<bar> = 2 ^ 53" by (simp only: of_int_eq_iff)
    then have "even k" by (metis even_abs_add_iff even_add even_numeral even_power pos2 zero_less_numeral)
    then obtain k' where k': "k = 2 * k'" by (elim evenE)
    have "x = of_int k' * 2 powi (q + 1)"
      using powi_split [of q "q + 1"] by (simp add: x k')
    moreover have "e \<le> q + 1" using q by (simp add: e_def Leq)
    ultimately show ?thesis by (rule round_grid)
  qed
  have "2 powi q \<le> (2::real) powi 970"
    using q(2) by (intro power_int_increasing) simp_all
  then have "(2::real) ^ 53 * 2 powi q \<le> 2 ^ 53 * 2 ^ 970"
    by simp
  with bound have "\<bar>x\<bar> \<le> 2 ^ 1023"
    by simp
  then have small: "\<not> 2 ^ 1024 \<le> \<bar>x\<bar>"
    by simp
  show ?thesis
    using False grid small
    by (simp add: round64_def Let_def L_def [symmetric] e_def [symmetric])
qed

text \<open>A multiple of \<^verbatim>\<open>2**q\<close> with a significand of at most 53 bits is a binary64 value,
  and so are the sums of such multiples as long as they stay below \<^verbatim>\<open>2**53\<close> of them: the
  sums of an exact grid are computed without rounding.\<close>

lemma on_grid_iff: "on_grid q v \<longleftrightarrow> (\<exists>k::int. v = of_int k * 2 powi q)"
proof
  assume "on_grid q v"
  then have "v = of_int \<lfloor>v / 2 powi q\<rfloor> * 2 powi q"
    by (simp add: on_grid_def field_simps)
  then show "\<exists>k::int. v = of_int k * 2 powi q" ..
next
  assume "\<exists>k::int. v = of_int k * 2 powi q"
  then obtain k :: int where "v = of_int k * 2 powi q" ..
  then have "v / 2 powi q = of_int k" by simp
  then show "on_grid q v" by (simp add: on_grid_def)
qed

lemma on_grid_0 [simp]: "on_grid q 0"
  by (simp add: on_grid_def)

lemma on_grid_add: "on_grid q a \<Longrightarrow> on_grid q b \<Longrightarrow> on_grid q (a + b)"
  unfolding on_grid_iff
  by (metis (no_types, opaque_lifting) distrib_right of_int_add)

lemma grid_exact:
  assumes g: "on_grid q v" and b: "\<bar>v\<bar> \<le> 2 ^ 53 * 2 powi q"
    and q: "- 1074 \<le> q" "q \<le> 970"
  shows "round64 v = Finite v"
proof -
  from g obtain k :: int where v: "v = of_int k * 2 powi q"
    unfolding on_grid_iff ..
  have "of_int \<bar>k\<bar> * 2 powi q \<le> 2 ^ 53 * (2::real) powi q"
    using b by (simp add: v abs_mult)
  then have "(of_int \<bar>k\<bar> :: real) \<le> 2 ^ 53"
    by (simp add: mult_le_cancel_right)
  then have "(of_int \<bar>k\<bar> :: real) \<le> of_int (2 ^ 53)" by simp
  then have "\<bar>k\<bar> \<le> 2 ^ 53" by (simp only: of_int_le_iff)
  with v q show ?thesis by (intro round64_exact)
qed

lemma fadd_exact:
  assumes "on_grid q a" "on_grid q b" "\<bar>a\<bar> + \<bar>b\<bar> \<le> 2 ^ 53 * 2 powi q"
    "- 1074 \<le> q" "q \<le> 970"
  shows "fadd (Finite a) (Finite b) = Finite (a + b)"
proof -
  have "\<bar>a + b\<bar> \<le> 2 ^ 53 * 2 powi q"
    using assms(3) by linarith
  with on_grid_add [OF assms(1,2)] assms(4,5) show ?thesis
    by (simp add: grid_exact)
qed

lemma exact_grid_Nil: "exact_grid q [] \<longleftrightarrow> - 1074 \<le> q \<and> q \<le> 970"
  by (simp add: exact_grid_def)

lemma sum_abs_nonneg: "0 \<le> sum_list (map abs (vs :: real list))"
  by (induction vs) simp_all

lemma exact_grid_append:
  "exact_grid q (xs @ ys) \<Longrightarrow> exact_grid q xs \<and> exact_grid q ys"
proof -
  assume a: "exact_grid q (xs @ ys)"
  have "0 \<le> sum_list (map abs xs)" "0 \<le> sum_list (map abs ys)"
    by (rule sum_abs_nonneg)+
  with a show ?thesis
    by (auto simp: exact_grid_def)
qed

lemma abs_le_sum_list: "(v::real) \<in> set vs \<Longrightarrow> \<bar>v\<bar> \<le> sum_list (map abs vs)"
proof (induction vs)
  case Nil
  then show ?case by simp
next
  case (Cons a vs)
  have "0 \<le> sum_list (map abs vs)" by (rule sum_abs_nonneg)
  with Cons show ?case by auto
qed

lemma seq_sum_exact:
  "exact_grid q (a # vs) \<Longrightarrow> seq_sum (Finite a) (map Finite vs) = Finite (a + sum_list vs)"
proof (induction vs arbitrary: a)
  case Nil
  then show ?case by (simp add: seq_sum_def)
next
  case (Cons v vs)
  from Cons.prems have q: "- 1074 \<le> q" "q \<le> 970"
    and ga: "on_grid q a" and gv: "on_grid q v" and gs: "list_all (on_grid q) vs"
    and b: "\<bar>a\<bar> + (\<bar>v\<bar> + sum_list (map abs vs)) \<le> 2 ^ 53 * 2 powi q"
    by (simp_all add: exact_grid_def)
  have nn: "0 \<le> sum_list (map abs vs)" by (rule sum_abs_nonneg)
  have step: "fadd (Finite a) (Finite v) = Finite (a + v)"
    using ga gv q b nn by (intro fadd_exact [of q]) simp_all
  have "exact_grid q ((a + v) # vs)"
    using q gs on_grid_add [OF ga gv] b by (simp add: exact_grid_def)
  from Cons.IH [OF this] step show ?case
    by (simp add: seq_sum_def add.assoc)
qed

lemma map2_fadd_exact:
  assumes "length rs = length vs" and q: "- 1074 \<le> q" "q \<le> 970"
    and "list_all (on_grid q) rs" "list_all (on_grid q) vs"
    and "\<forall>r \<in> set rs. \<forall>v \<in> set vs. \<bar>r\<bar> + \<bar>v\<bar> \<le> 2 ^ 53 * 2 powi q"
  shows "map2 fadd (map Finite rs) (map Finite vs) = map Finite (map2 (+) rs vs)"
  using assms
proof (induction rs vs rule: list_induct2)
  case Nil
  then show ?case by simp
next
  case (Cons r rs v vs)
  have "fadd (Finite r) (Finite v) = Finite (r + v)"
    using Cons.prems by (intro fadd_exact [of q]) simp_all
  moreover have "map2 fadd (map Finite rs) (map Finite vs) = map Finite (map2 (+) rs vs)"
    using Cons.prems by (intro Cons.IH) simp_all
  ultimately show ?case by simp
qed

lemma map2_add_grid:
  "length rs = length vs \<Longrightarrow> list_all (on_grid q) rs \<Longrightarrow> list_all (on_grid q) vs \<Longrightarrow>
   list_all (on_grid q) (map2 (+) rs vs)"
  by (induction rs vs rule: list_induct2) (simp_all add: on_grid_add)

lemma map2_add_sum:
  "length rs = length vs \<Longrightarrow> sum_list (map2 (+) rs vs) = sum_list rs + sum_list (vs :: real list)"
  by (induction rs vs rule: list_induct2) simp_all

lemma map2_add_abs:
  "length rs = length vs \<Longrightarrow>
   sum_list (map abs (map2 (+) rs vs)) \<le> sum_list (map abs rs) + sum_list (map abs (vs :: real list))"
proof (induction rs vs rule: list_induct2)
  case Nil
  then show ?case by simp
next
  case (Cons r rs v vs)
  have "\<bar>r + v\<bar> \<le> \<bar>r\<bar> + \<bar>v\<bar>" by simp
  with Cons.IH show ?case by simp
qed

lemma block_sums_exact:
  assumes "length rs = 8" and "exact_grid q (rs @ vs)"
  shows "\<exists>rs' vs'. block_sums (map Finite rs) (map Finite vs) = (map Finite rs', map Finite vs')
           \<and> length rs' = 8 \<and> exact_grid q (rs' @ vs')
           \<and> sum_list rs' + sum_list vs' = sum_list rs + sum_list vs"
  using assms
proof (induction vs arbitrary: rs rule: length_induct)
  case (1 vs)
  show ?case
  proof (cases "8 \<le> length vs")
    case False
    then have "block_sums (map Finite rs) (map Finite vs) = (map Finite rs, map Finite vs)"
      by (subst block_sums.simps) simp
    with "1.prems" show ?thesis by blast
  next
    case True
    let ?hd = "take 8 vs" and ?tl = "drop 8 vs"
    from "1.prems"(2) have q: "- 1074 \<le> q" "q \<le> 970"
      and grs: "list_all (on_grid q) rs" and gvs: "list_all (on_grid q) vs"
      and b: "sum_list (map abs rs) + sum_list (map abs vs) \<le> 2 ^ 53 * 2 powi q"
      by (simp_all add: exact_grid_def)
    have len: "length rs = length ?hd" using True "1.prems"(1) by simp
    have ghd: "list_all (on_grid q) ?hd" and gtl: "list_all (on_grid q) ?tl"
      using gvs by (auto simp: list_all_iff dest: in_set_takeD in_set_dropD)
    have split: "sum_list (map abs vs) = sum_list (map abs ?hd) + sum_list (map abs ?tl)"
      by (metis append_take_drop_id map_append sum_list_append)
    have split': "sum_list vs = sum_list ?hd + sum_list ?tl"
      by (metis append_take_drop_id sum_list_append)
    have nn: "0 \<le> sum_list (map abs ?tl)" by (rule sum_abs_nonneg)
    have pair: "\<forall>r \<in> set rs. \<forall>v \<in> set ?hd. \<bar>r\<bar> + \<bar>v\<bar> \<le> 2 ^ 53 * 2 powi q"
    proof (intro ballI)
      fix r v assume "r \<in> set rs" "v \<in> set ?hd"
      then have "\<bar>r\<bar> \<le> sum_list (map abs rs)" "\<bar>v\<bar> \<le> sum_list (map abs ?hd)"
        by (simp_all add: abs_le_sum_list)
      with b split nn show "\<bar>r\<bar> + \<bar>v\<bar> \<le> 2 ^ 53 * 2 powi q" by linarith
    qed
    have step: "map2 fadd (map Finite rs) (take 8 (map Finite vs)) =
                map Finite (map2 (+) rs ?hd)"
      using map2_fadd_exact [OF len q grs ghd pair] by (simp add: take_map)
    let ?rs1 = "map2 (+) rs ?hd"
    have len1: "length ?rs1 = 8" using len "1.prems"(1) by simp
    have "sum_list (map abs ?rs1) + sum_list (map abs ?tl) \<le> 2 ^ 53 * 2 powi q"
      using map2_add_abs [OF len] b split by linarith
    then have ex1: "exact_grid q (?rs1 @ ?tl)"
      using q map2_add_grid [OF len grs ghd] gtl by (simp add: exact_grid_def)
    have shorter: "length ?tl < length vs" using True by simp
    from "1.IH" [rule_format, OF shorter len1 ex1] obtain rs' vs' where
      r: "block_sums (map Finite ?rs1) (map Finite ?tl) = (map Finite rs', map Finite vs')"
        "length rs' = 8" "exact_grid q (rs' @ vs')"
        "sum_list rs' + sum_list vs' = sum_list ?rs1 + sum_list ?tl"
      by blast
    have "block_sums (map Finite rs) (map Finite vs) =
          block_sums (map Finite ?rs1) (map Finite ?tl)"
      using True step by (subst block_sums.simps) (simp add: drop_map)
    moreover have "sum_list ?rs1 + sum_list ?tl = sum_list rs + sum_list vs"
      using map2_add_sum [OF len] split' by simp
    ultimately show ?thesis using r by auto
  qed
qed

lemma on_grid_sum_list: "list_all (on_grid q) vs \<Longrightarrow> on_grid q (sum_list vs)"
  by (induction vs) (simp_all add: on_grid_add)

lemma exact_grid_sum:
  assumes "exact_grid q (xs @ ys)"
  shows "exact_grid q (sum_list xs # ys)"
proof -
  have "\<bar>sum_list xs\<bar> \<le> sum_list (map abs xs)" by (rule sum_list_abs)
  with assms show ?thesis
    by (simp add: exact_grid_def on_grid_sum_list)
qed

lemma fadd_sublists:
  assumes "exact_grid q (xs @ ys)"
  shows "fadd (Finite (sum_list xs)) (Finite (sum_list ys)) = Finite (sum_list (xs @ ys))"
proof -
  from assms have q: "- 1074 \<le> q" "q \<le> 970"
    and g: "list_all (on_grid q) xs" "list_all (on_grid q) ys"
    and b: "sum_list (map abs xs) + sum_list (map abs ys) \<le> 2 ^ 53 * 2 powi q"
    by (simp_all add: exact_grid_def)
  have "\<bar>sum_list xs\<bar> \<le> sum_list (map abs xs)" "\<bar>sum_list ys\<bar> \<le> sum_list (map abs ys)"
    by (rule sum_list_abs)+
  with b have "\<bar>sum_list xs\<bar> + \<bar>sum_list ys\<bar> \<le> 2 ^ 53 * 2 powi q" by linarith
  then have "fadd (Finite (sum_list xs)) (Finite (sum_list ys)) =
             Finite (sum_list xs + sum_list ys)"
    using g q by (intro fadd_exact [of q] on_grid_sum_list)
  then show ?thesis by simp
qed

lemma exact_grid_take: "exact_grid q vs \<Longrightarrow> exact_grid q (take n vs)"
  using exact_grid_append [of q "take n vs" "drop n vs"] by simp

lemma exact_grid_drop: "exact_grid q vs \<Longrightarrow> exact_grid q (drop n vs)"
  using exact_grid_append [of q "take n vs" "drop n vs"] by simp

lemma combine8_exact:
  assumes len: "length rs = 8" and ex: "exact_grid q rs"
  shows "combine8 (map Finite rs) = Finite (sum_list rs)"
proof -
  from len have "length rs = Suc (Suc (Suc (Suc (Suc (Suc (Suc (Suc 0)))))))"
    by simp
  then obtain r0 r1 r2 r3 r4 r5 r6 r7 where rs: "rs = [r0, r1, r2, r3, r4, r5, r6, r7]"
    unfolding length_Suc_conv by auto
  have all: "exact_grid q ([r0, r1, r2, r3] @ [r4, r5, r6, r7])"
    using ex rs by simp
  from exact_grid_append [OF all] have lo: "exact_grid q ([r0, r1] @ [r2, r3])"
    and hi: "exact_grid q ([r4, r5] @ [r6, r7])" by simp_all
  from exact_grid_append [OF lo] have p01: "exact_grid q ([r0] @ [r1])"
    and p23: "exact_grid q ([r2] @ [r3])" by simp_all
  from exact_grid_append [OF hi] have p45: "exact_grid q ([r4] @ [r5])"
    and p67: "exact_grid q ([r6] @ [r7])" by simp_all
  have e01: "fadd (Finite r0) (Finite r1) = Finite (sum_list [r0, r1])"
    using fadd_sublists [OF p01] by simp
  have e23: "fadd (Finite r2) (Finite r3) = Finite (sum_list [r2, r3])"
    using fadd_sublists [OF p23] by simp
  have e45: "fadd (Finite r4) (Finite r5) = Finite (sum_list [r4, r5])"
    using fadd_sublists [OF p45] by simp
  have e67: "fadd (Finite r6) (Finite r7) = Finite (sum_list [r6, r7])"
    using fadd_sublists [OF p67] by simp
  have elo: "fadd (Finite (sum_list [r0, r1])) (Finite (sum_list [r2, r3])) =
             Finite (sum_list ([r0, r1] @ [r2, r3]))"
    by (rule fadd_sublists [OF lo])
  have ehi: "fadd (Finite (sum_list [r4, r5])) (Finite (sum_list [r6, r7])) =
             Finite (sum_list ([r4, r5] @ [r6, r7]))"
    by (rule fadd_sublists [OF hi])
  have eall: "fadd (Finite (sum_list ([r0, r1] @ [r2, r3]))) (Finite (sum_list ([r4, r5] @ [r6, r7]))) =
              Finite (sum_list (([r0, r1] @ [r2, r3]) @ ([r4, r5] @ [r6, r7])))"
    using fadd_sublists [of q "[r0, r1] @ [r2, r3]" "[r4, r5] @ [r6, r7]"] all by simp
  have "combine8 (map Finite rs) =
        fadd (fadd (fadd (Finite r0) (Finite r1)) (fadd (Finite r2) (Finite r3)))
             (fadd (fadd (Finite r4) (Finite r5)) (fadd (Finite r6) (Finite r7)))"
    by (simp add: combine8_def rs)
  also have "\<dots> = Finite (sum_list (([r0, r1] @ [r2, r3]) @ ([r4, r5] @ [r6, r7])))"
    by (simp only: e01 e23 e45 e67 elo ehi eall)
  finally show ?thesis by (simp add: rs)
qed

lemma pairwise_short: "length xs < 8 \<Longrightarrow> pairwise_sum xs = seq_sum (Finite 0) xs"
  by (subst pairwise_sum.simps) simp

lemma pairwise_block:
  "8 \<le> length xs \<Longrightarrow> length xs \<le> 128 \<Longrightarrow>
   pairwise_sum xs =
     (case block_sums (take 8 xs) (drop 8 xs) of (r, rest) \<Rightarrow> seq_sum (combine8 r) rest)"
  by (subst pairwise_sum.simps) simp

lemma pairwise_long:
  "128 < length xs \<Longrightarrow>
   pairwise_sum xs =
     fadd (pairwise_sum (take (length xs div 2 - (length xs div 2) mod 8) xs))
          (pairwise_sum (drop (length xs div 2 - (length xs div 2) mod 8) xs))"
  by (subst pairwise_sum.simps) (simp add: Let_def)

lemma n2_bounds:
  assumes "128 < (n::nat)"
  shows "0 < n div 2 - (n div 2) mod 8" and "n div 2 - (n div 2) mod 8 < n"
proof -
  have a: "64 \<le> n div 2" using assms by linarith
  have b: "(n div 2) mod 8 < 8" by simp
  have c: "n div 2 < n" using assms by (intro div_less_dividend) simp_all
  from a b show "0 < n div 2 - (n div 2) mod 8" by linarith
  from c show "n div 2 - (n div 2) mod 8 < n" by linarith
qed

lemma pairwise_sum_exact:
  "exact_grid q vs \<Longrightarrow> pairwise_sum (map Finite vs) = Finite (sum_list vs)"
proof (induction vs rule: length_induct)
  case (1 vs)
  note ex = "1.prems"
  consider (short) "length vs < 8" | (block) "8 \<le> length vs" "length vs \<le> 128"
    | (long) "128 < length vs" by linarith
  then show ?case
  proof cases
    case short
    have "exact_grid q (0 # vs)" using ex by (simp add: exact_grid_def)
    from seq_sum_exact [OF this] short show ?thesis
      by (simp add: pairwise_short)
  next
    case block
    have l8: "length (take 8 vs) = 8" using block by simp
    have "exact_grid q (take 8 vs @ drop 8 vs)" using ex by simp
    from block_sums_exact [OF l8 this] obtain rs' vs' where
      b: "block_sums (map Finite (take 8 vs)) (map Finite (drop 8 vs)) =
            (map Finite rs', map Finite vs')" and
      len: "length rs' = 8" and ex': "exact_grid q (rs' @ vs')" and
      sum: "sum_list rs' + sum_list vs' = sum_list (take 8 vs) + sum_list (drop 8 vs)"
      by blast
    have "exact_grid q rs'"
      using exact_grid_append [OF ex'] by simp
    then have c: "combine8 (map Finite rs') = Finite (sum_list rs')"
      by (rule combine8_exact [OF len])
    have s: "seq_sum (Finite (sum_list rs')) (map Finite vs') = Finite (sum_list rs' + sum_list vs')"
      by (rule seq_sum_exact [OF exact_grid_sum [OF ex']])
    have "sum_list (take 8 vs) + sum_list (drop 8 vs) = sum_list vs"
      by (metis append_take_drop_id sum_list_append)
    with b c s sum block show ?thesis
      by (simp add: pairwise_block take_map drop_map)
  next
    case long
    define n2 where "n2 = length vs div 2 - (length vs div 2) mod 8"
    have n2: "0 < n2" "n2 < length vs"
      using n2_bounds [OF long] by (simp_all add: n2_def)
    have lt: "length (take n2 vs) < length vs" and ld: "length (drop n2 vs) < length vs"
      using n2 by simp_all
    have t: "pairwise_sum (map Finite (take n2 vs)) = Finite (sum_list (take n2 vs))"
      using "1.IH" [rule_format, OF lt exact_grid_take [OF ex]] .
    have d: "pairwise_sum (map Finite (drop n2 vs)) = Finite (sum_list (drop n2 vs))"
      using "1.IH" [rule_format, OF ld exact_grid_drop [OF ex]] .
    have f: "fadd (Finite (sum_list (take n2 vs))) (Finite (sum_list (drop n2 vs))) =
             Finite (sum_list (take n2 vs @ drop n2 vs))"
      using ex by (intro fadd_sublists [of q]) simp
    have "pairwise_sum (map Finite vs) =
          fadd (pairwise_sum (take n2 (map Finite vs))) (pairwise_sum (drop n2 (map Finite vs)))"
      using long by (subst pairwise_long) (simp_all add: n2_def)
    also have "\<dots> = Finite (sum_list (take n2 vs @ drop n2 vs))"
      by (simp only: take_map drop_map t d f)
    finally show ?thesis by simp
  qed
qed

lemma chunked_sum_exact:
  "exact_grid q (a # vs) \<Longrightarrow> chunked_sum (Finite a) (map Finite vs) = Finite (a + sum_list vs)"
proof (induction vs arbitrary: a rule: length_induct)
  case (1 vs)
  show ?case
  proof (cases "vs = []")
    case True
    then show ?thesis by (subst chunked_sum.simps) simp
  next
    case False
    let ?hd = "take 8192 vs" and ?tl = "drop 8192 vs"
    have ex: "exact_grid q ([a] @ ?hd @ ?tl)" using "1.prems" by simp
    have exhd: "exact_grid q ?hd"
      using exact_grid_append [OF ex] exact_grid_append [of q ?hd ?tl] by simp
    have p: "pairwise_sum (map Finite ?hd) = Finite (sum_list ?hd)"
      by (rule pairwise_sum_exact [OF exhd])
    have "exact_grid q (([a] @ ?hd) @ ?tl)" using ex by simp
    from exact_grid_append [OF this] have "exact_grid q ([a] @ ?hd)" by simp
    from fadd_sublists [OF this]
    have f: "fadd (Finite a) (Finite (sum_list ?hd)) = Finite (a + sum_list ?hd)" by simp
    have "exact_grid q (sum_list ([a] @ ?hd) # ?tl)"
      using ex by (intro exact_grid_sum) simp
    then have ex': "exact_grid q ((a + sum_list ?hd) # ?tl)" by simp
    have shorter: "length ?tl < length vs" using False by simp
    from "1.IH" [rule_format, OF shorter ex']
    have r: "chunked_sum (Finite (a + sum_list ?hd)) (map Finite ?tl) =
             Finite (a + sum_list ?hd + sum_list ?tl)" .
    have "sum_list ?hd + sum_list ?tl = sum_list vs"
      by (metis append_take_drop_id sum_list_append)
    with p f r False show ?thesis
      by (subst chunked_sum.simps) (simp add: take_map drop_map add.assoc)
  qed
qed

text \<open>The evaluation of a rounding at a value whose binary exponent is known.\<close>

lemma round64_eval:
  assumes "2 powi k \<le> \<bar>x\<bar>" and "\<bar>x\<bar> < 2 powi (k + 1)"
    and "e = max (k - 52) (- 1074)"
    and "of_int (round_half_even (x / 2 powi e)) * 2 powi e = r"
    and "\<bar>r\<bar> < 2 ^ 1024"
  shows "round64 x = Finite r"
  using assms(3-5) unfolding round64_at [OF assms(1,2)] by (simp add: Let_def)

lemma round64_overflow:
  assumes "2 powi k \<le> \<bar>x\<bar>" and "\<bar>x\<bar> < 2 powi (k + 1)"
    and "e = max (k - 52) (- 1074)"
    and "of_int (round_half_even (x / 2 powi e)) * 2 powi e = (r::real)"
    and "2 ^ 1024 \<le> \<bar>r\<bar>" and "0 < x"
  shows "round64 x = PosInf"
  using assms(3-6) unfolding round64_at [OF assms(1,2)] by (simp add: Let_def)

lemma round64_small_int: "\<bar>k\<bar> \<le> 2 ^ 53 \<Longrightarrow> round64 (of_int k) = Finite (of_int k)"
  using round64_exact [of "of_int k" k 0] by simp

lemma round64_dyadic:
  "\<bar>k\<bar> \<le> 2 ^ 53 \<Longrightarrow> n \<le> 1074 \<Longrightarrow> round64 (of_int k / 2 ^ n) = Finite (of_int k / 2 ^ n)"
  using round64_exact [of "of_int k / 2 ^ n" k "- int n"]
  by (simp add: power_int_minus field_simps)

section \<open>Properties of the aggregation\<close>

lemma scores_of_Nil [simp]: "scores_of m [] = []"
  by (simp add: scores_of_def)

lemma scores_of_Cons:
  "scores_of m ((k, v) # items) =
     (if k = m \<and> well_defined v then v # scores_of m items else scores_of m items)"
  by (simp add: scores_of_def)

lemma kept_well_defined:
  "isinstance_int_float v \<Longrightarrow> np_isnan v = Inr b \<Longrightarrow> well_defined v = (\<not> b)"
  by (cases v) (auto split: if_splits)

lemma not_instance_not_well_defined:
  "\<not> isinstance_int_float v \<Longrightarrow> \<not> well_defined v"
  by (cases v) auto

lemma add_items_keys:
  "add_items items d = Inr d' \<Longrightarrow> map fst d' = map fst d"
proof (induction items d rule: add_items.induct)
  case (1 results)
  then show ?case by simp
next
  case (2 metric score items results)
  then show ?case
    by (auto split: if_splits sum.splits bool.splits option.splits
        simp: update_keys dest!: map_of_SomeD) (metis fst_conv image_eqI)+
qed

lemma add_items_lookup:
  "add_items items d = Inr d' \<Longrightarrow>
   map_of d' k = map_option (\<lambda>l. l @ scores_of k items) (map_of d k)"
proof (induction items d rule: add_items.induct)
  case (1 results)
  then show ?case by (simp add: option.map_ident)
next
  case (2 metric score items results)
  show ?case
  proof (cases "isinstance_int_float score")
    case False
    with 2 show ?thesis
      by (simp add: scores_of_Cons not_instance_not_well_defined)
  next
    case inst: True
    show ?thesis
    proof (cases "np_isnan score")
      case (Inl e)
      with inst "2.prems" show ?thesis by simp
    next
      case (Inr b)
      note wd = kept_well_defined [OF inst Inr]
      show ?thesis
      proof (cases b)
        case True
        with 2 inst Inr wd show ?thesis by (simp add: scores_of_Cons)
      next
        case False
        with "2.prems" inst Inr obtain scores where
          look: "map_of results metric = Some scores" and
          rest: "add_items items (AList.update metric (scores @ [score]) results) = Inr d'"
          by (auto split: option.splits)
        have "map_of d' k = map_option (\<lambda>l. l @ scores_of k items)
                 (map_of (AList.update metric (scores @ [score]) results) k)"
          using "2.IH"(2) [OF inst Inr False look rest] .
        then show ?thesis
          using look wd False by (simp add: update_conv' scores_of_Cons)
      qed
    qed
  qed
qed

lemma add_samples_keys:
  "add_samples rs d = Inr d' \<Longrightarrow> map fst d' = map fst d"
proof (induction rs arbitrary: d)
  case Nil
  then show ?case by simp
next
  case (Cons s rs)
  then show ?case
    by (auto split: sum.splits dest: add_items_keys)
qed

lemma add_samples_lookup:
  "add_samples rs d = Inr d' \<Longrightarrow>
   map_of d' k = map_option (\<lambda>l. l @ collected k rs) (map_of d k)"
proof (induction rs arbitrary: d)
  case Nil
  then show ?case by (simp add: collected_def option.map_ident)
next
  case (Cons s rs)
  from Cons.prems obtain d1 where
    s: "add_items s d = Inr d1" and rs: "add_samples rs d1 = Inr d'"
    by (auto split: sum.splits)
  show ?case
    using Cons.IH [OF rs] add_items_lookup [OF s, of k]
    by (simp add: collected_def option.map_comp comp_def)
qed

lemma fold_update_lookup:
  "map_of (fold (\<lambda>metric d. AList.update metric [] d) ms d0) k =
     (if k \<in> set ms then Some [] else map_of d0 k)"
  by (induction ms arbitrary: d0) (auto simp: update_conv')

lemma fold_update_distinct:
  "distinct (map fst d0) \<Longrightarrow>
   distinct (map fst (fold (\<lambda>metric d. AList.update metric [] d) ms d0))"
  by (induction ms arbitrary: d0) (auto simp: distinct_update)

lemma fold_update_dom:
  "fst ` set (fold (\<lambda>metric d. AList.update metric [] d) ms d0) = set ms \<union> fst ` set d0"
  by (induction ms arbitrary: d0) (auto simp: dom_update)

lemma init_results_lookup:
  "map_of (init_results ms) k = (if k \<in> set ms then Some [] else None)"
  by (simp add: init_results_def fold_update_lookup)

lemma init_results_distinct: "distinct (map fst (init_results ms))"
  by (simp add: init_results_def fold_update_distinct)

lemma init_results_dom: "set (map fst (init_results ms)) = set ms"
  using fold_update_dom [of ms "[]"] by (simp add: init_results_def)

lemma as_float_well_defined: "well_defined v \<Longrightarrow> as_float v = Some (float_of v)"
  by (cases v) auto

lemma round64_not_NaN [simp]: "round64 x \<noteq> NaN"
  by (simp add: round64_def Let_def)

lemma float_of_well_defined: "well_defined v \<Longrightarrow> float_of v \<noteq> NaN"
  by (cases v) auto

lemma those_as_float:
  "list_all well_defined l \<Longrightarrow> those (map as_float l) = Some (map float_of l)"
  by (induction l) (auto simp: as_float_well_defined)

lemma np_nanmean_well_defined:
  assumes "list_all well_defined l"
  shows "np_nanmean l = Inr (nanmean_of l)"
  by (simp add: nanmean_of_def np_nanmean_def those_as_float [OF assms])

lemma round64_0 [simp]: "round64 0 = Finite 0"
  by (simp add: round64_def)

lemma pairwise_sum_Nil [simp]: "pairwise_sum [] = Finite 0"
  by (simp add: pairwise_short seq_sum_def)

lemma chunked_sum_Nil [simp]: "chunked_sum res [] = res"
  by (subst chunked_sum.simps) simp

lemma chunked_sum_short:
  "xs \<noteq> [] \<Longrightarrow> length xs \<le> 8192 \<Longrightarrow> chunked_sum res xs = fadd res (pairwise_sum xs)"
  by (subst chunked_sum.simps) simp

lemma np_nanmean_Nil: "np_nanmean [] = Inr NaN"
  by (simp add: np_nanmean_def integer_array_def)

lemma nanmean_of_Nil: "nanmean_of [] = NaN"
  by (simp add: nanmean_of_def np_nanmean_Nil)

text \<open>On an exact grid the mean is the arithmetic mean, rounded once.\<close>

lemma np_nanmean_exact:
  assumes fin: "map float_of l = map Finite xs" and ex: "exact_grid q xs" and ne: "xs \<noteq> []"
    and wd: "list_all well_defined l"
  shows "np_nanmean l = Inr (round64 (sum_list xs / real (length xs)))"
proof -
  have nn: "\<forall>x \<in> set (map Finite xs). x \<noteq> NaN"
    by auto
  then have a: "map (\<lambda>x. if x = NaN then Finite 0 else x) (map Finite xs) = map Finite xs"
    by (intro map_idI) auto
  have b: "filter (\<lambda>x. x \<noteq> NaN) (map Finite xs) = map Finite xs"
    using nn by (intro filter_True) auto
  have len: "0 < length xs" using ne by simp
  have ex0: "exact_grid q (0 # xs)"
    using ex by (simp add: exact_grid_def)
  have chunk: "chunked_sum (Finite 0) (map Finite xs) = Finite (sum_list xs)"
    using chunked_sum_exact [OF ex0] by simp
  have "exact_grid q ([] @ xs)" using ex by simp
  from fadd_sublists [OF this]
  have pair: "fadd (Finite 0) (pairwise_sum (map Finite xs)) = Finite (sum_list xs)"
    by (simp add: pairwise_sum_exact [OF ex])
  show ?thesis
    unfolding np_nanmean_def those_as_float [OF wd] fin
    using len by (simp only: option.case a b chunk pair length_map) simp
qed

lemma sum_list_mset_real: "mset xs = mset ys \<Longrightarrow> sum_list xs = sum_list (ys :: real list)"
  by (metis sum_mset_sum_list)

lemma exact_grid_mset:
  assumes "mset xs = mset ys"
  shows "exact_grid q xs \<longleftrightarrow> exact_grid q ys"
proof -
  have "set xs = set ys" using assms by (rule mset_eq_setD)
  moreover have "mset (map abs xs) = mset (map abs ys)" using assms by simp
  then have "sum_list (map abs xs) = sum_list (map abs ys)" by (rule sum_list_mset_real)
  ultimately show ?thesis by (simp add: exact_grid_def list_all_iff)
qed

lemma integer_array_mset:
  assumes "mset l = mset l'"
  shows "integer_array l \<longleftrightarrow> integer_array l'"
proof -
  have "set l = set l'" using assms by (rule mset_eq_setD)
  moreover have "l = [] \<longleftrightarrow> l' = []" using assms by (metis mset_zero_iff)
  ultimately show ?thesis by (simp add: integer_array_def list_all_iff)
qed

lemma scores_of_well_defined: "list_all well_defined (scores_of m items)"
  by (auto simp: scores_of_def list_all_iff)

lemma collected_well_defined: "list_all well_defined (collected m rs)"
  using scores_of_well_defined by (auto simp: collected_def list_all_iff)

lemma mean_items_well_defined:
  "\<forall>(k, l) \<in> set d. list_all well_defined l \<Longrightarrow>
   mean_items d = Inr (map (\<lambda>(k, l). (k, nanmean_of l)) d)"
  by (induction d) (auto simp: np_nanmean_well_defined)

lemma add_samples_init_items:
  assumes "add_samples rs (init_results ms) = Inr d"
  shows "d = map (\<lambda>k. (k, collected k rs)) (map fst (init_results ms))"
proof -
  have keys: "map fst d = map fst (init_results ms)"
    using add_samples_keys [OF assms] .
  have dist: "distinct (map fst d)"
    using keys init_results_distinct by simp
  have val: "l = collected k rs" if "(k, l) \<in> set d" for k l
  proof -
    have "map_of d k = Some l" using that dist by simp
    moreover have "k \<in> set ms"
      using that keys init_results_dom [of ms] by (metis fst_conv image_eqI set_map)
    ultimately show ?thesis
      using add_samples_lookup [OF assms, of k] by (simp add: init_results_lookup)
  qed
  have "d = map (\<lambda>p. (fst p, snd p)) d" by simp
  also have "\<dots> = map (\<lambda>p. (fst p, collected (fst p) rs)) d"
    using val by (intro map_cong) auto
  also have "\<dots> = map (\<lambda>k. (k, collected k rs)) (map fst d)"
    by (simp add: comp_def)
  finally show ?thesis using keys by simp
qed

lemma aggregate_ok:
  assumes "add_samples rs (init_results ms) = Inr d"
  shows "aggregate ms rs =
           Inr (map (\<lambda>k. (k, nanmean_of (collected k rs))) (map fst (init_results ms)))"
proof -
  note d = add_samples_init_items [OF assms]
  have "\<forall>(k, l) \<in> set d. list_all well_defined l"
    by (subst d) (auto simp: collected_well_defined)
  then have "mean_items d = Inr (map (\<lambda>(k, l). (k, nanmean_of l)) d)"
    by (rule mean_items_well_defined)
  also have "map (\<lambda>(k, l). (k, nanmean_of l)) d =
             map (\<lambda>k. (k, nanmean_of (collected k rs))) (map fst (init_results ms))"
    by (subst d) (simp add: comp_def)
  finally show ?thesis using assms by (simp add: aggregate_def)
qed

lemma map_of_None_iff: "map_of d k = None \<longleftrightarrow> k \<notin> fst ` set d"
  by (simp add: map_of_eq_None_iff)

lemma add_items_succeeds:
  "(\<exists>d'. add_items items d = Inr d') \<longleftrightarrow> list_all (accepted (fst ` set d)) items"
proof (induction items d rule: add_items.induct)
  case (1 results)
  then show ?case by simp
next
  case (2 metric score items results)
  show ?case
  proof (cases "isinstance_int_float score")
    case False
    with 2 show ?thesis by simp
  next
    case inst: True
    show ?thesis
    proof (cases "np_isnan score")
      case (Inl e)
      with inst show ?thesis by simp
    next
      case (Inr b)
      show ?thesis
      proof (cases b)
        case True
        with 2 inst Inr show ?thesis by simp
      next
        case nb: False
        show ?thesis
        proof (cases "map_of results metric")
          case None
          then have "metric \<notin> fst ` set results" by (simp add: map_of_None_iff)
          with None inst Inr nb show ?thesis by simp
        next
          case (Some scores)
          then have mem: "metric \<in> fst ` set results"
            by (metis map_of_None_iff option.distinct(1))
          then have "fst ` set (AList.update metric (scores @ [score]) results) = fst ` set results"
            by (auto simp: dom_update)
          with "2.IH"(2) [OF inst Inr nb Some] Some inst Inr nb mem show ?thesis by simp
        qed
      qed
    qed
  qed
qed

lemma add_samples_succeeds:
  "(\<exists>d'. add_samples rs d = Inr d') \<longleftrightarrow> list_all (list_all (accepted (fst ` set d))) rs"
proof (induction rs arbitrary: d)
  case Nil
  then show ?case by simp
next
  case (Cons s rs)
  show ?case
  proof (cases "add_items s d")
    case (Inl e)
    then have "\<not> list_all (accepted (fst ` set d)) s"
      using add_items_succeeds [of s d] by simp
    with Inl show ?thesis by simp
  next
    case (Inr d1)
    then have s: "list_all (accepted (fst ` set d)) s"
      using add_items_succeeds [of s d] by auto
    have "fst ` set d1 = fst ` set d"
      using add_items_keys [OF Inr] by (metis set_map)
    with Cons.IH [of d1] Inr s show ?thesis by simp
  qed
qed

lemma accepted_held: "held_by_numpy v \<Longrightarrow> k \<in> keys \<Longrightarrow> accepted keys (k, v)"
  by (cases v) auto

lemma accepted_held_conv:
  "accepted keys (k, v) \<Longrightarrow> held_by_numpy v"
  by (cases v) (auto split: if_splits)

lemma map_of_keyed: "m \<in> set ks \<Longrightarrow> map_of (map (\<lambda>k. (k, f k)) ks) m = Some (f m)"
  by (induction ks) auto

lemma collected_mset:
  "mset rs' = mset rs \<Longrightarrow> mset (collected k rs') = mset (collected k rs)"
proof -
  assume eq: "mset rs' = mset rs"
  have "mset (collected k rs) = (\<Sum>s \<in># mset rs. mset (scores_of k s))" for rs
    by (induction rs) (auto simp: collected_def)
  then show ?thesis using eq by simp
qed

lemma nanmean_of_mset_exact:
  assumes perm: "mset l' = mset l" and fin: "map float_of l = map Finite xs"
    and ex: "exact_grid q xs" and wd: "list_all well_defined l"
  shows "nanmean_of l' = nanmean_of l"
proof (cases "l = []")
  case True
  with perm show ?thesis by simp
next
  case False
  define g where "g = (\<lambda>v. case float_of v of Finite r \<Rightarrow> r | _ \<Rightarrow> 0)"
  define xs' where "xs' = map g l'"
  have sets: "set l' = set l" using perm by (rule mset_eq_setD)
  have finite: "float_of v = Finite (g v)" if "v \<in> set l" for v
  proof -
    from that have "float_of v \<in> set (map float_of l)" by simp
    then have "float_of v \<in> set (map Finite xs)" by (simp only: fin)
    then obtain r where "float_of v = Finite r" by auto
    then show ?thesis by (simp add: g_def)
  qed
  have fin': "map float_of l' = map Finite xs'"
    unfolding xs'_def using finite sets by simp
  have "map float_of l = map (\<lambda>v. Finite (g v)) l"
    using finite by (intro map_cong) auto
  then have "map Finite (map g l) = map Finite xs"
    using fin by (simp add: comp_def)
  then have gl: "map g l = xs"
    by (rule map_injective) (simp add: inj_def)
  have "mset xs' = image_mset g (mset l')" by (simp add: xs'_def)
  also have "\<dots> = mset (map g l)" by (simp add: perm)
  finally have m: "mset xs' = mset xs" by (simp only: gl)
  have ex': "exact_grid q xs'" using exact_grid_mset [OF m, of q] ex by blast
  have wd': "list_all well_defined l'" using wd sets by (simp add: list_all_iff)
  have ne: "xs \<noteq> []" using False fin by auto
  have ne': "xs' \<noteq> []" using ne m by auto
  have len: "length xs' = length xs" using m by (rule mset_eq_length)
  have sum: "sum_list xs' = sum_list xs" using m by (rule sum_list_mset_real)
  show ?thesis
    unfolding nanmean_of_def np_nanmean_exact [OF fin ex ne wd]
      np_nanmean_exact [OF fin' ex' ne' wd']
    by (simp add: len sum)
qed

section \<open>Claims about the aggregation\<close>

text \<open>
  Claim C2, as stated: during aggregation every per-sample score that is not a finite real
  number is dropped, the infinities among them. It fails on a score that is positive
  infinity: \<^verbatim>\<open>isinstance(inf, (int, float))\<close> holds and \<^verbatim>\<open>np.isnan(inf)\<close> is false, so the
  score is appended, and the mean of infinity and 1 is infinity.
\<close>

theorem aggregation_keeps_infinity:
  "add_samples [[(''rouge_score'', PyFloat PosInf)], [(''rouge_score'', PyFloat (Finite 1))]]
       (init_results [''rouge_score''])
     = Inr [(''rouge_score'', [PyFloat PosInf, PyFloat (Finite 1)])]
   \<and> aggregate [''rouge_score'']
         [[(''rouge_score'', PyFloat PosInf)], [(''rouge_score'', PyFloat (Finite 1))]]
     = Inr [(''rouge_score'', PosInf)]"
  by (simp add: aggregate_def init_results_def np_nanmean_def integer_array_def
      pairwise_short seq_sum_def)

text \<open>
  Claim C2, amended: the aggregation drops every per-sample score that is not an int or a
  float, or that is not-a-number; the infinities are not dropped and enter the mean, and
  a finite zero is included in the mean. This for per-sample results that hold no int
  beyond 64 bits, on which the aggregation raises, and whose keys are requested metrics,
  as those of \<^verbatim>\<open>evaluate_sample\<close> are: then the loop ends without raising, the list it has
  gathered for a requested metric is the list of the scores of that metric that are numbers
  and not not-a-number, in the order of the per-sample results, and the aggregate of the
  metric is \<^verbatim>\<open>np.nanmean\<close> of that list.
\<close>

theorem aggregation_collects_well_defined:
  assumes "\<forall>r \<in> set sample_results. \<forall>(k, v) \<in> set r. k \<in> set metrics \<and> held_by_numpy v"
    and "m \<in> set metrics"
  shows "\<exists>results agg mu.
           add_samples sample_results (init_results metrics) = Inr results
         \<and> map_of results m = Some (collected m sample_results)
         \<and> aggregate metrics sample_results = Inr agg
         \<and> np_nanmean (collected m sample_results) = Inr mu
         \<and> map_of agg m = Some mu"
proof -
  have "accepted (fst ` set (init_results metrics)) (k, v)" if "r \<in> set sample_results"
    "(k, v) \<in> set r" for r k v
  proof -
    from assms(1) that have "k \<in> set metrics" and "held_by_numpy v" by blast+
    then show ?thesis
      using init_results_dom [of metrics] by (intro accepted_held) simp_all
  qed
  then have "list_all (list_all (accepted (fst ` set (init_results metrics)))) sample_results"
    by (auto simp: list_all_iff)
  then obtain results where
    run: "add_samples sample_results (init_results metrics) = Inr results"
    using add_samples_succeeds [of sample_results "init_results metrics"] by blast
  have look: "map_of results m = Some (collected m sample_results)"
    using add_samples_lookup [OF run, of m] assms(2) by (simp add: init_results_lookup)
  note agg = aggregate_ok [OF run]
  have "m \<in> set (map fst (init_results metrics))"
    using assms(2) init_results_dom [of metrics] by simp
  then have mu: "map_of (map (\<lambda>k. (k, nanmean_of (collected k sample_results)))
                     (map fst (init_results metrics))) m
                 = Some (nanmean_of (collected m sample_results))"
    by (rule map_of_keyed)
  have nm: "np_nanmean (collected m sample_results) = Inr (nanmean_of (collected m sample_results))"
    by (rule np_nanmean_well_defined [OF collected_well_defined])
  from run look agg nm mu show ?thesis by blast
qed

theorem aggregation_collects_well_defined_witness:
  "add_samples [[(''rouge_score'', PyFloat (Finite 0)), (''faithfulness'', PyFloat NaN)],
                [(''rouge_score'', PyFloat NegInf), (''faithfulness'', PyNone)]]
       (init_results [''rouge_score'', ''faithfulness''])
     = Inr [(''rouge_score'', [PyFloat (Finite 0), PyFloat NegInf]), (''faithfulness'', [])]
   \<and> collected ''rouge_score''
         [[(''rouge_score'', PyFloat (Finite 0)), (''faithfulness'', PyFloat NaN)],
          [(''rouge_score'', PyFloat NegInf), (''faithfulness'', PyNone)]]
     = [PyFloat (Finite 0), PyFloat NegInf]
   \<and> np_nanmean [PyFloat (Finite 0), PyFloat NegInf] = Inr NegInf
   \<and> (\<exists>agg. aggregate [''rouge_score'', ''faithfulness'']
                [[(''rouge_score'', PyFloat (Finite 0)), (''faithfulness'', PyFloat NaN)],
                 [(''rouge_score'', PyFloat NegInf), (''faithfulness'', PyNone)]] = Inr agg
           \<and> map_of agg ''rouge_score'' = Some NegInf)"
proof -
  let ?rs = "[[(''rouge_score'', PyFloat (Finite 0)), (''faithfulness'', PyFloat NaN)],
              [(''rouge_score'', PyFloat NegInf), (''faithfulness'', PyNone)]]"
  let ?ms = "[''rouge_score'', ''faithfulness'']"
  let ?d = "[(''rouge_score'', [PyFloat (Finite 0), PyFloat NegInf]), (''faithfulness'', [])]"
  have hyp: "\<forall>r \<in> set ?rs. \<forall>(k, v) \<in> set r. k \<in> set ?ms \<and> held_by_numpy v"
    by simp
  have mem: "''rouge_score'' \<in> set ?ms"
    by simp
  have run: "add_samples ?rs (init_results ?ms) = Inr ?d"
    by (simp add: init_results_def)
  have mean: "np_nanmean [PyFloat (Finite 0), PyFloat NegInf] = Inr NegInf"
    by (simp add: np_nanmean_def integer_array_def pairwise_short seq_sum_def)
  from aggregation_collects_well_defined [OF hyp mem] obtain results agg mu where
    r: "add_samples ?rs (init_results ?ms) = Inr results" and
    look: "map_of results ''rouge_score'' = Some (collected ''rouge_score'' ?rs)" and
    agg: "aggregate ?ms ?rs = Inr agg" and
    mu: "np_nanmean (collected ''rouge_score'' ?rs) = Inr mu" and
    at: "map_of agg ''rouge_score'' = Some mu"
    by blast
  from r run have "results = ?d" by simp
  with look have coll: "collected ''rouge_score'' ?rs = [PyFloat (Finite 0), PyFloat NegInf]"
    by simp
  from mu mean have "mu = NegInf" unfolding coll by simp
  with at have "map_of agg ''rouge_score'' = Some NegInf" by simp
  with agg have "\<exists>agg. aggregate ?ms ?rs = Inr agg \<and> map_of agg ''rouge_score'' = Some NegInf"
    by blast
  with run coll mean show ?thesis by (intro conjI)
qed

text \<open>
  Claim C6, as stated: the aggregation gives the same mapping from metric to score for a
  list of per-sample results and for every permutation of it. It fails on the scores
  \<^verbatim>\<open>0.1\<close>, \<^verbatim>\<open>0.2\<close> and \<^verbatim>\<open>0.3\<close> of three samples: the sum of the scores is rounded after every
  addition, and in this order the aggregate is \<^verbatim>\<open>0.20000000000000004\<close>, in the reverse
  order \<^verbatim>\<open>0.19999999999999998\<close>.
\<close>

theorem aggregate_depends_on_order:
  "mset [[(''rouge_score'', PyFloat (Finite (3602879701896397 / 2 ^ 55)))],
         [(''rouge_score'', PyFloat (Finite (3602879701896397 / 2 ^ 54)))],
         [(''rouge_score'', PyFloat (Finite (5404319552844595 / 2 ^ 54)))]]
     = mset [[(''rouge_score'', PyFloat (Finite (5404319552844595 / 2 ^ 54)))],
             [(''rouge_score'', PyFloat (Finite (3602879701896397 / 2 ^ 54)))],
             [(''rouge_score'', PyFloat (Finite (3602879701896397 / 2 ^ 55)))]]
   \<and> aggregate [''rouge_score'']
        [[(''rouge_score'', PyFloat (Finite (3602879701896397 / 2 ^ 55)))],
         [(''rouge_score'', PyFloat (Finite (3602879701896397 / 2 ^ 54)))],
         [(''rouge_score'', PyFloat (Finite (5404319552844595 / 2 ^ 54)))]]
     = Inr [(''rouge_score'', Finite (7205759403792795 / 2 ^ 55))]
   \<and> aggregate [''rouge_score'']
        [[(''rouge_score'', PyFloat (Finite (5404319552844595 / 2 ^ 54)))],
         [(''rouge_score'', PyFloat (Finite (3602879701896397 / 2 ^ 54)))],
         [(''rouge_score'', PyFloat (Finite (3602879701896397 / 2 ^ 55)))]]
     = Inr [(''rouge_score'', Finite (7205759403792793 / 2 ^ 55))]"
proof -
  let ?a = "3602879701896397 / 2 ^ 55 :: real"
  let ?b = "3602879701896397 / 2 ^ 54 :: real"
  let ?c = "5404319552844595 / 2 ^ 54 :: real"
  have a: "round64 ?a = Finite ?a"
    using round64_dyadic [of 3602879701896397 55] by simp
  have c: "round64 ?c = Finite ?c"
    using round64_dyadic [of 5404319552844595 54] by simp
  have ab: "round64 (?a + ?b) = Finite (1351079888211149 / 2 ^ 52)"
    by (rule round64_eval [of "- 2" _ "- 54"]) (simp_all add: round_half_even_def Let_def)
  have abc: "round64 (1351079888211149 / 2 ^ 52 + ?c) = Finite (1351079888211149 / 2 ^ 51)"
    by (rule round64_eval [of "- 1" _ "- 53"]) (simp_all add: round_half_even_def Let_def)
  have s: "round64 (1351079888211149 / 2 ^ 51) = Finite (1351079888211149 / 2 ^ 51)"
    using round64_dyadic [of 1351079888211149 51] by simp
  have fwd: "round64 (1351079888211149 / 2 ^ 51 / 3) = Finite (7205759403792795 / 2 ^ 55)"
    by (rule round64_eval [of "- 3" _ "- 55"]) (simp_all add: round_half_even_def Let_def)
  have cb: "round64 (?c + ?b) = Finite (1 / 2)"
    using round64_dyadic [of 1 1] by simp
  have cba: "round64 (1 / 2 + ?a) = Finite (5404319552844595 / 2 ^ 53)"
    by (rule round64_eval [of "- 1" _ "- 53"]) (simp_all add: round_half_even_def Let_def)
  have t: "round64 (5404319552844595 / 2 ^ 53) = Finite (5404319552844595 / 2 ^ 53)"
    using round64_dyadic [of 5404319552844595 53] by simp
  have rev: "round64 (5404319552844595 / 2 ^ 53 / 3) = Finite (7205759403792793 / 2 ^ 55)"
    by (rule round64_eval [of "- 3" _ "- 55"]) (simp_all add: round_half_even_def Let_def)
  have m1: "np_nanmean [PyFloat (Finite ?a), PyFloat (Finite ?b), PyFloat (Finite ?c)] =
              Inr (Finite (7205759403792795 / 2 ^ 55))"
    using a ab abc s fwd
    by (simp add: np_nanmean_def integer_array_def pairwise_short seq_sum_def)
  have m2: "np_nanmean [PyFloat (Finite ?c), PyFloat (Finite ?b), PyFloat (Finite ?a)] =
              Inr (Finite (7205759403792793 / 2 ^ 55))"
    using c cb cba t rev
    by (simp add: np_nanmean_def integer_array_def pairwise_short seq_sum_def)
  have perm: "mset [[(''rouge_score'', PyFloat (Finite ?a))], [(''rouge_score'', PyFloat (Finite ?b))],
                    [(''rouge_score'', PyFloat (Finite ?c))]]
            = mset [[(''rouge_score'', PyFloat (Finite ?c))], [(''rouge_score'', PyFloat (Finite ?b))],
                    [(''rouge_score'', PyFloat (Finite ?a))]]"
    by (simp add: add.commute)
  have f: "aggregate [''rouge_score'']
             [[(''rouge_score'', PyFloat (Finite ?a))], [(''rouge_score'', PyFloat (Finite ?b))],
              [(''rouge_score'', PyFloat (Finite ?c))]]
           = Inr [(''rouge_score'', Finite (7205759403792795 / 2 ^ 55))]"
    using m1 by (simp add: aggregate_def init_results_def)
  have r: "aggregate [''rouge_score'']
             [[(''rouge_score'', PyFloat (Finite ?c))], [(''rouge_score'', PyFloat (Finite ?b))],
              [(''rouge_score'', PyFloat (Finite ?a))]]
           = Inr [(''rouge_score'', Finite (7205759403792793 / 2 ^ 55))]"
    using m2 by (simp add: aggregate_def init_results_def)
  from perm f r show ?thesis by (intro conjI)
qed

text \<open>
  Claim C6, amended: for a list of per-sample results and a permutation of it, the
  aggregation raises on the one exactly when it raises on the other, the mappings it
  returns have the same keys, and the scores that the loop gathers for a metric from the
  two are the same up to their order. The aggregates are the same when, for every requested
  metric, the gathered scores are finite and their sums are exact: they lie on one binary
  grid with a bounded sum of magnitudes. Otherwise the sum, which is rounded after every
  addition, may depend on the order.
\<close>

theorem aggregate_permutation:
  assumes "mset rs' = mset rs"
  shows "((\<exists>d'. add_samples rs' (init_results metrics) = Inr d') \<longleftrightarrow>
          (\<exists>d. add_samples rs (init_results metrics) = Inr d))
       \<and> ((\<exists>agg'. aggregate metrics rs' = Inr agg') \<longleftrightarrow>
          (\<exists>agg. aggregate metrics rs = Inr agg))
       \<and> (\<forall>d d' m. add_samples rs (init_results metrics) = Inr d \<and>
                   add_samples rs' (init_results metrics) = Inr d' \<and> m \<in> set metrics \<longrightarrow>
             map fst d' = map fst d \<and>
             (\<exists>l l'. map_of d m = Some l \<and> map_of d' m = Some l' \<and> mset l' = mset l))
       \<and> (\<forall>agg agg'. aggregate metrics rs = Inr agg \<and> aggregate metrics rs' = Inr agg' \<longrightarrow>
             map fst agg' = map fst agg)
       \<and> ((\<forall>m \<in> set metrics. \<exists>q xs.
              map float_of (collected m rs) = map Finite xs \<and> exact_grid q xs) \<longrightarrow>
          (\<forall>agg. aggregate metrics rs' = Inr agg \<longleftrightarrow> aggregate metrics rs = Inr agg))"
proof -
  let ?keys = "map fst (init_results metrics)"
  have sets: "set rs' = set rs"
    using assms by (rule mset_eq_setD)
  have succeeds: "(\<exists>d'. add_samples rs' (init_results metrics) = Inr d') \<longleftrightarrow>
                  (\<exists>d. add_samples rs (init_results metrics) = Inr d)"
    unfolding add_samples_succeeds using sets by (simp add: list_all_iff)
  have returns: "(\<exists>agg. aggregate metrics xs = Inr agg) \<longleftrightarrow>
                 (\<exists>d. add_samples xs (init_results metrics) = Inr d)" for xs
  proof (cases "add_samples xs (init_results metrics)")
    case (Inl e)
    then show ?thesis by (simp add: aggregate_def)
  next
    case (Inr d)
    from aggregate_ok [OF Inr] Inr show ?thesis by simp
  qed
  have both: "(\<exists>agg'. aggregate metrics rs' = Inr agg') \<longleftrightarrow>
              (\<exists>agg. aggregate metrics rs = Inr agg)"
    unfolding returns by (rule succeeds)
  have gathered: "map fst d' = map fst d \<and>
      (\<exists>l l'. map_of d m = Some l \<and> map_of d' m = Some l' \<and> mset l' = mset l)"
    if "add_samples rs (init_results metrics) = Inr d \<and>
        add_samples rs' (init_results metrics) = Inr d' \<and> m \<in> set metrics" for d d' m
  proof -
    from that have d: "add_samples rs (init_results metrics) = Inr d"
      and d': "add_samples rs' (init_results metrics) = Inr d'" and m: "m \<in> set metrics"
      by simp_all
    have "map fst d' = map fst d"
      using add_samples_keys [OF d] add_samples_keys [OF d'] by simp
    moreover have "map_of d m = Some (collected m rs)"
      using add_samples_lookup [OF d, of m] m by (simp add: init_results_lookup)
    moreover have "map_of d' m = Some (collected m rs')"
      using add_samples_lookup [OF d', of m] m by (simp add: init_results_lookup)
    ultimately show ?thesis
      using collected_mset [OF assms, of m] by simp
  qed
  have agg_of: "agg = map (\<lambda>k. (k, nanmean_of (collected k xs))) ?keys"
    if "aggregate metrics xs = Inr agg" for xs agg
  proof -
    from that obtain d where "add_samples xs (init_results metrics) = Inr d"
      by (auto simp: aggregate_def split: sum.splits)
    from aggregate_ok [OF this] that show ?thesis by simp
  qed
  have keys: "map fst agg' = map fst agg"
    if "aggregate metrics rs = Inr agg \<and> aggregate metrics rs' = Inr agg'" for agg agg'
    using agg_of [of rs agg] agg_of [of rs' agg'] that by (simp add: comp_def)
  have same: "aggregate metrics rs' = Inr agg \<longleftrightarrow> aggregate metrics rs = Inr agg"
    if exact: "\<forall>m \<in> set metrics. \<exists>q xs.
                 map float_of (collected m rs) = map Finite xs \<and> exact_grid q xs" for agg
  proof -
    have means: "nanmean_of (collected k rs') = nanmean_of (collected k rs)"
      if "k \<in> set ?keys" for k
    proof -
      from that have "k \<in> set metrics" using init_results_dom [of metrics] by simp
      with exact obtain q xs where
        "map float_of (collected k rs) = map Finite xs" and "exact_grid q xs"
        by blast
      with collected_mset [OF assms, of k] collected_well_defined [of k rs]
      show ?thesis by (intro nanmean_of_mset_exact)
    qed
    then have eq: "map (\<lambda>k. (k, nanmean_of (collected k rs'))) ?keys =
                   map (\<lambda>k. (k, nanmean_of (collected k rs))) ?keys"
      by (intro map_cong) simp_all
    show ?thesis
    proof (cases "add_samples rs (init_results metrics)")
      case (Inl e)
      with succeeds obtain e' where "add_samples rs' (init_results metrics) = Inl e'"
        by (cases "add_samples rs' (init_results metrics)") auto
      with Inl show ?thesis by (simp add: aggregate_def)
    next
      case (Inr d)
      with succeeds obtain d' where d': "add_samples rs' (init_results metrics) = Inr d'"
        by auto
      show ?thesis
        unfolding aggregate_ok [OF Inr] aggregate_ok [OF d'] by (simp only: eq)
    qed
  qed
  from succeeds both gathered keys same show ?thesis by blast
qed

theorem aggregate_permutation_witness:
  "mset [[(''coverage_score'', PyFloat (Finite 1)), (''faithfulness'', PyFloat NaN)],
         [(''coverage_score'', PyFloat (Finite (1 / 2))), (''faithfulness'', PyInt 1)]]
     = mset [[(''coverage_score'', PyFloat (Finite (1 / 2))), (''faithfulness'', PyInt 1)],
             [(''coverage_score'', PyFloat (Finite 1)), (''faithfulness'', PyFloat NaN)]]
   \<and> exact_grid (- 1) [1 / 2, 1]
   \<and> aggregate [''coverage_score'', ''faithfulness'']
        [[(''coverage_score'', PyFloat (Finite 1)), (''faithfulness'', PyFloat NaN)],
         [(''coverage_score'', PyFloat (Finite (1 / 2))), (''faithfulness'', PyInt 1)]]
     = Inr [(''coverage_score'', Finite (3 / 4)), (''faithfulness'', Finite 1)]
   \<and> aggregate [''coverage_score'', ''faithfulness'']
        [[(''coverage_score'', PyFloat (Finite (1 / 2))), (''faithfulness'', PyInt 1)],
         [(''coverage_score'', PyFloat (Finite 1)), (''faithfulness'', PyFloat NaN)]]
     = Inr [(''coverage_score'', Finite (3 / 4)), (''faithfulness'', Finite 1)]"
proof -
  let ?a = "[(''coverage_score'', PyFloat (Finite 1)), (''faithfulness'', PyFloat NaN)]"
  let ?b = "[(''coverage_score'', PyFloat (Finite (1 / 2))), (''faithfulness'', PyInt 1)]"
  let ?ms = "[''coverage_score'', ''faithfulness'']"
  let ?agg = "[(''coverage_score'', Finite (3 / 4)), (''faithfulness'', Finite 1)]"
  have perm: "mset [?a, ?b] = mset [?b, ?a]"
    by (simp add: add.commute)
  have r1: "round64 1 = Finite 1"
    using round64_small_int [of 1] by simp
  have r2: "round64 (1 / 2) = Finite (1 / 2)"
    using round64_dyadic [of 1 1] by simp
  have r3: "round64 (3 / 2) = Finite (3 / 2)"
    using round64_dyadic [of 3 1] by simp
  have r4: "round64 (3 / 4) = Finite (3 / 4)"
    using round64_dyadic [of 3 2] by simp
  have g1: "exact_grid (- 1) [1 / 2, 1]"
    by (simp add: exact_grid_def on_grid_def power_int_minus)
  have g2: "exact_grid 0 [1]"
    by (simp add: exact_grid_def on_grid_def)
  have c1: "map float_of (collected ''coverage_score'' [?b, ?a]) = map Finite [1 / 2, 1]"
    by (simp add: collected_def scores_of_def)
  have c2: "map float_of (collected ''faithfulness'' [?b, ?a]) = map Finite [1]"
    by (simp add: collected_def scores_of_def r1)
  have exact: "\<forall>m \<in> set ?ms. \<exists>q xs.
                 map float_of (collected m [?b, ?a]) = map Finite xs \<and> exact_grid q xs"
  proof (intro ballI)
    fix m
    assume "m \<in> set ?ms"
    then consider "m = ''coverage_score''" | "m = ''faithfulness''" by auto
    then show "\<exists>q xs. map float_of (collected m [?b, ?a]) = map Finite xs \<and> exact_grid q xs"
    proof cases
      case 1
      with c1 g1 show ?thesis by blast
    next
      case 2
      with c2 g2 show ?thesis by blast
    qed
  qed
  have m1: "np_nanmean [PyFloat (Finite (1 / 2)), PyFloat (Finite 1)] = Inr (Finite (3 / 4))"
    using r1 r2 r3 r4
    by (simp add: np_nanmean_def integer_array_def pairwise_short seq_sum_def)
  have m2: "np_nanmean [PyInt 1] = Inr (Finite 1)"
    using r1
    by (simp add: np_nanmean_def integer_array_def chunked_sum_short pairwise_short seq_sum_def)
  have one: "aggregate ?ms [?b, ?a] = Inr ?agg"
    using m1 m2 by (simp add: aggregate_def init_results_def)
  from aggregate_permutation [OF perm, of ?ms] exact one
  have "aggregate ?ms [?a, ?b] = Inr ?agg" by blast
  with perm g1 one show ?thesis by (intro conjI)
qed

section \<open>Properties of the completion orders and of \<^verbatim>\<open>evaluate_sample\<close>\<close>

lemma as_completed_mset: "mset (as_completed picks ts) = mset ts"
proof (induction picks ts rule: as_completed.induct)
  case (1 picks)
  then show ?case by simp
next
  case (2 t ts)
  then show ?case by simp
next
  case (3 p picks t ts)
  let ?xs = "t # ts"
  let ?k = "p mod length ?xs"
  have k: "?k < length ?xs" by simp
  have "mset ?xs = mset (take ?k ?xs @ ?xs ! ?k # drop (Suc ?k) ?xs)"
    using id_take_nth_drop [OF k] by simp
  also have "\<dots> = add_mset (?xs ! ?k) (mset (take ?k ?xs @ drop (Suc ?k) ?xs))"
    by simp
  finally show ?case
    using "3.IH" [of ?k] by (simp add: Let_def)
qed

lemma as_completed_set: "set (as_completed picks ts) = set ts"
  using as_completed_mset [of picks ts] by (metis set_mset_mset)

lemma as_completed_length: "length (as_completed picks ts) = length ts"
  using as_completed_mset [of picks ts] by (metis size_mset)

lemma await_each_map_Inr: "await_each (map Inr rs) = Inr rs"
  by (induction rs) auto

lemma await_each_Inr: "await_each xs = Inr rs \<longleftrightarrow> xs = map Inr rs"
proof
  show "await_each xs = Inr rs \<Longrightarrow> xs = map Inr rs"
  proof (induction xs arbitrary: rs)
    case Nil
    then show ?case by auto
  next
    case (Cons x xs)
    then show ?case
      by (cases x) (auto split: sum.splits)
  qed
qed (simp add: await_each_map_Inr)

lemma await_each_Inl: "await_each xs = Inl e \<Longrightarrow> Inl e \<in> set xs"
proof (induction xs)
  case Nil
  then show ?case by simp
next
  case (Cons x xs)
  then show ?case by (cases x) (auto split: sum.splits)
qed

lemma await_each_raises: "Inl e \<in> set xs \<Longrightarrow> \<exists>e'. await_each xs = Inl e' \<and> Inl e' \<in> set xs"
proof -
  assume mem: "Inl e \<in> set xs"
  show ?thesis
  proof (cases "await_each xs")
    case (Inl e')
    then show ?thesis using await_each_Inl by blast
  next
    case (Inr rs)
    then have "xs = map Inr rs" by (simp add: await_each_Inr)
    with mem show ?thesis by auto
  qed
qed

lemma gather_fst [simp]: "fst (gather run picks aws) = aws"
  by (simp add: gather_def)

lemma gather_Inr: "snd (gather run picks aws) = Inr rs \<longleftrightarrow> map run aws = map Inr rs"
proof
  assume "snd (gather run picks aws) = Inr rs"
  then show "map run aws = map Inr rs"
    by (auto simp: gather_def await_each_Inr split: sum.splits)
next
  assume eq: "map run aws = map Inr rs"
  have "await_each (as_completed picks (map run aws)) \<noteq> Inl e" for e
  proof
    assume "await_each (as_completed picks (map run aws)) = Inl e"
    then have "Inl e \<in> set (as_completed picks (map run aws))"
      by (rule await_each_Inl)
    then have "Inl e \<in> set (map run aws)"
      by (simp only: as_completed_set)
    with eq show False by auto
  qed
  then obtain rs' where "await_each (as_completed picks (map run aws)) = Inr rs'"
    by (cases "await_each (as_completed picks (map run aws))") auto
  moreover have "await_each (map run aws) = Inr rs"
    using eq by (simp add: await_each_Inr)
  ultimately show "snd (gather run picks aws) = Inr rs"
    by (simp add: gather_def)
qed

lemma gather_Inl: "snd (gather run picks aws) = Inl e \<Longrightarrow> Inl e \<in> set (map run aws)"
proof -
  assume a: "snd (gather run picks aws) = Inl e"
  show ?thesis
  proof (cases "await_each (as_completed picks (map run aws))")
    case (Inl e')
    with a have "e' = e" by (simp add: gather_def)
    with Inl have "Inl e \<in> set (as_completed picks (map run aws))"
      using await_each_Inl by blast
    then show ?thesis by (simp only: as_completed_set)
  next
    case (Inr rs)
    with a have "await_each (map run aws) = Inl e" by (simp add: gather_def)
    then show ?thesis by (rule await_each_Inl)
  qed
qed

lemma gather_raises:
  assumes "Inl e \<in> set (map run aws)"
  shows "\<exists>e'. snd (gather run picks aws) = Inl e' \<and> Inl e' \<in> set (map run aws)"
proof -
  from assms have "Inl e \<in> set (as_completed picks (map run aws))"
    by (simp only: as_completed_set)
  from await_each_raises [OF this] obtain e' where
    e': "await_each (as_completed picks (map run aws)) = Inl e'"
      "Inl e' \<in> set (as_completed picks (map run aws))"
    by blast
  from e'(2) have "Inl e' \<in> set (map run aws)" by (simp only: as_completed_set)
  moreover from e'(1) have "snd (gather run picks aws) = Inl e'" by (simp add: gather_def)
  ultimately show ?thesis by blast
qed

lemma sample_tasks_keys:
  "map fst (sample_tasks question answer contexts ground_truth metrics llm embeddings) =
     filter (\<lambda>m. m \<in> set metrics) supported"
  by (simp add: sample_tasks_def supported_def)

lemma sample_tasks_distinct:
  "distinct (map fst (sample_tasks question answer contexts ground_truth metrics llm embeddings))"
  by (simp add: sample_tasks_keys supported_def)

lemma update_fresh: "k \<notin> fst ` set d \<Longrightarrow> AList.update k v d = d @ [(k, v)]"
  by (induction d) auto

lemma fold_enumerate_update:
  "distinct ks \<Longrightarrow> set ks \<inter> fst ` set d = {} \<Longrightarrow>
   fold (\<lambda>(i, metric) results. AList.update metric (vs ! i) results) (enumerate n ks) d =
     d @ map (\<lambda>(i, metric). (metric, vs ! i)) (enumerate n ks)"
proof (induction ks arbitrary: n d)
  case Nil
  then show ?case by simp
next
  case (Cons k ks)
  have fresh: "k \<notin> fst ` set d" using Cons.prems by auto
  have "set ks \<inter> fst ` set (d @ [(k, vs ! n)]) = {}"
    using Cons.prems by auto
  with Cons.IH [of "d @ [(k, vs ! n)]" "Suc n"] Cons.prems(1) fresh
  show ?case by (simp add: update_fresh)
qed

lemma enumerate_zip_nth:
  "length vs = length ks \<Longrightarrow>
   map (\<lambda>(i, metric). (metric, vs ! i)) (enumerate 0 ks) = zip ks vs"
  by (auto simp: list_eq_iff_nth_eq nth_enumerate_eq)

lemma evaluate_sample_unfold:
  "evaluate_sample run picks question answer contexts ground_truth metrics llm embeddings =
     (map snd (sample_tasks question answer contexts ground_truth metrics llm embeddings),
      case snd (gather run picks
                  (map snd (sample_tasks question answer contexts ground_truth metrics llm
                              embeddings))) of
        Inl e \<Rightarrow> Inl e
      | Inr task_results \<Rightarrow>
          Inr (fold (\<lambda>(i, metric) results. AList.update metric (task_results ! i) results)
                    (enumerate 0 (map fst (sample_tasks question answer contexts ground_truth
                                             metrics llm embeddings))) []))"
  by (simp add: evaluate_sample_def gather_def Let_def split: sum.splits)

lemma evaluate_sample_invoked:
  "fst (evaluate_sample run picks question answer contexts ground_truth metrics llm embeddings) =
     map snd (sample_tasks question answer contexts ground_truth metrics llm embeddings)"
  by (simp add: evaluate_sample_unfold)

lemma evaluate_sample_Inr:
  assumes "snd (evaluate_sample run picks question answer contexts ground_truth metrics llm
             embeddings) = Inr results"
  shows "\<exists>vs. map run (fst (evaluate_sample run picks question answer contexts ground_truth
                   metrics llm embeddings)) = map Inr vs \<and>
              results = zip (filter (\<lambda>m. m \<in> set metrics) supported) vs"
proof -
  let ?tasks = "sample_tasks question answer contexts ground_truth metrics llm embeddings"
  from assms obtain vs where
    g: "snd (gather run picks (map snd ?tasks)) = Inr vs" and
    r: "results = fold (\<lambda>(i, metric) results. AList.update metric (vs ! i) results)
                       (enumerate 0 (map fst ?tasks)) []"
    by (auto simp: evaluate_sample_unfold split: sum.splits)
  from g have eq: "map run (map snd ?tasks) = map Inr vs"
    by (simp only: gather_Inr)
  then have len: "length vs = length (map fst ?tasks)"
    by (metis length_map)
  have "results = map (\<lambda>(i, metric). (metric, vs ! i)) (enumerate 0 (map fst ?tasks))"
    using fold_enumerate_update [OF sample_tasks_distinct, of question answer contexts
        ground_truth metrics llm embeddings "[]" vs 0] r
    by simp
  then have "results = zip (map fst ?tasks) vs"
    using enumerate_zip_nth [OF len] by simp
  with eq show ?thesis
    by (auto simp: evaluate_sample_invoked sample_tasks_keys)
qed

lemma evaluate_sample_all_succeed:
  assumes "map run (fst (evaluate_sample run picks question answer contexts ground_truth
                           metrics llm embeddings)) = map Inr vs"
  shows "snd (evaluate_sample run picks question answer contexts ground_truth metrics llm
                embeddings) = Inr (zip (filter (\<lambda>m. m \<in> set metrics) supported) vs)"
proof -
  let ?tasks = "sample_tasks question answer contexts ground_truth metrics llm embeddings"
  from assms have eq: "map run (map snd ?tasks) = map Inr vs"
    by (simp only: evaluate_sample_invoked)
  then have g: "snd (gather run picks (map snd ?tasks)) = Inr vs"
    by (simp only: gather_Inr)
  from eq have len: "length vs = length (map fst ?tasks)"
    by (metis length_map)
  have "fold (\<lambda>(i, metric) results. AList.update metric (vs ! i) results)
             (enumerate 0 (map fst ?tasks)) [] =
        map (\<lambda>(i, metric). (metric, vs ! i)) (enumerate 0 (map fst ?tasks))"
    using fold_enumerate_update [OF sample_tasks_distinct, of question answer contexts
        ground_truth metrics llm embeddings "[]" vs 0]
    by simp
  also have "\<dots> = zip (map fst ?tasks) vs"
    by (rule enumerate_zip_nth [OF len])
  finally show ?thesis
    by (simp add: evaluate_sample_unfold g sample_tasks_keys)
qed

lemma evaluate_sample_keys:
  assumes "snd (evaluate_sample run picks question answer contexts ground_truth metrics llm
             embeddings) = Inr results"
  shows "map fst results = filter (\<lambda>m. m \<in> set metrics) supported"
proof -
  from evaluate_sample_Inr [OF assms] obtain vs where
    eq: "map run (fst (evaluate_sample run picks question answer contexts ground_truth
                   metrics llm embeddings)) = map Inr vs" and
    r: "results = zip (filter (\<lambda>m. m \<in> set metrics) supported) vs"
    by blast
  have "length vs = length (filter (\<lambda>m. m \<in> set metrics) supported)"
    using eq by (metis evaluate_sample_invoked length_map sample_tasks_keys)
  with r show ?thesis by simp
qed

lemma evaluate_sample_Inl:
  assumes "snd (evaluate_sample run picks question answer contexts ground_truth metrics llm
             embeddings) = Inl e"
  shows "\<exists>c \<in> set (fst (evaluate_sample run picks question answer contexts ground_truth
                          metrics llm embeddings)). run c = Inl e"
proof -
  let ?tasks = "sample_tasks question answer contexts ground_truth metrics llm embeddings"
  from assms have "snd (gather run picks (map snd ?tasks)) = Inl e"
    by (auto simp: evaluate_sample_unfold split: sum.splits)
  then have "Inl e \<in> set (map run (map snd ?tasks))"
    by (rule gather_Inl)
  then have "Inl e \<in> run ` set (map snd ?tasks)"
    by (simp only: set_map)
  then obtain c where "c \<in> set (map snd ?tasks)" and "Inl e = run c"
    by (rule imageE)
  then show ?thesis
    unfolding evaluate_sample_invoked by (intro bexI [of _ c]) simp_all
qed

lemma evaluate_sample_raises:
  assumes "c \<in> set (fst (evaluate_sample run picks question answer contexts ground_truth
                           metrics llm embeddings))"
    and "run c = Inl e"
  shows "\<exists>e'. snd (evaluate_sample run picks question answer contexts ground_truth metrics llm
                 embeddings) = Inl e'"
proof -
  let ?tasks = "sample_tasks question answer contexts ground_truth metrics llm embeddings"
  have "Inl e \<in> set (map run (map snd ?tasks))"
    using assms by (force simp: evaluate_sample_invoked)
  from gather_raises [OF this, of picks] obtain e' where
    "snd (gather run picks (map snd ?tasks)) = Inl e'"
    by blast
  then show ?thesis
    by (simp add: evaluate_sample_unfold)
qed

section \<open>Properties of \<^verbatim>\<open>evaluate_dataset\<close>\<close>

text \<open>Every order of the submitted tasks is the order of completion under some picks, so a
  statement for all picks is one for all orders of completion.\<close>

lemma as_completed_any_order:
  "mset ys = mset ts \<Longrightarrow> \<exists>picks. as_completed picks ts = ys"
proof (induction ys arbitrary: ts)
  case Nil
  then show ?case by auto
next
  case (Cons y ys)
  then have "y \<in> set ts" by (metis list.set_intros(1) set_mset_mset)
  then obtain k where k: "k < length ts" and y: "ts ! k = y"
    by (auto simp: in_set_conv_nth)
  let ?ts' = "take k ts @ drop (Suc k) ts"
  have "mset ts = add_mset y (mset ?ts')"
    using id_take_nth_drop [OF k] y by (metis mset.simps(2) mset_append union_mset_add_mset_right)
  with Cons.prems have "mset ys = mset ?ts'" by simp
  from Cons.IH [OF this] obtain picks where p: "as_completed picks ?ts' = ys" by blast
  obtain t tl where ts: "ts = t # tl" using k by (cases ts) auto
  have "as_completed (k # picks) ts = y # ys"
    using k y p unfolding ts by (simp add: Let_def)
  then show ?case by blast
qed

lemma collect_results_tasks:
  "collect_results run sched dataset metrics llm embeddings =
     (map (\<lambda>i. fst (sample_task run sched dataset metrics llm embeddings i)) [0..<length dataset],
      await_each (as_completed (sample_picks sched)
        (map (\<lambda>i. snd (sample_task run sched dataset metrics llm embeddings i))
             [0..<length dataset])))"
proof -
  have T: "map (\<lambda>i. evaluate_sample run (metric_picks sched i)
               (map col_question dataset ! i) (map col_answer dataset ! i)
               (map col_contexts dataset ! i) (map col_ground_truth dataset ! i)
               metrics llm embeddings) [0..<length (map col_question dataset)] =
        map (sample_task run sched dataset metrics llm embeddings) [0..<length dataset]"
    by (rule map_cong) (simp_all add: sample_task_def)
  show ?thesis
    unfolding collect_results_def Let_def T by (simp only: map_map comp_def)
qed

lemma collect_results_invoked:
  "fst (collect_results run sched dataset metrics llm embeddings) =
     map (\<lambda>i. fst (sample_task run sched dataset metrics llm embeddings i)) [0..<length dataset]"
  by (simp add: collect_results_tasks)

lemma collect_results_Inr:
  assumes "snd (collect_results run sched dataset metrics llm embeddings) = Inr rs"
  shows "mset (map Inr rs) =
           mset (map (\<lambda>i. snd (sample_task run sched dataset metrics llm embeddings i))
                     [0..<length dataset])"
proof -
  from assms have "as_completed (sample_picks sched)
        (map (\<lambda>i. snd (sample_task run sched dataset metrics llm embeddings i))
             [0..<length dataset]) = map Inr rs"
    by (simp add: collect_results_tasks await_each_Inr)
  then show ?thesis
    by (metis as_completed_mset)
qed

lemma collect_results_member:
  assumes "snd (collect_results run sched dataset metrics llm embeddings) = Inr rs"
    and "r \<in> set rs"
  shows "\<exists>i < length dataset. snd (sample_task run sched dataset metrics llm embeddings i) = Inr r"
proof -
  have "Inr r \<in> set (map Inr rs)" using assms(2) by simp
  then have "Inr r \<in># mset (map (\<lambda>i. snd (sample_task run sched dataset metrics llm embeddings i))
                     [0..<length dataset])"
    using collect_results_Inr [OF assms(1)] by (metis set_mset_mset)
  then show ?thesis by auto
qed

lemma collect_results_Inl:
  assumes "snd (collect_results run sched dataset metrics llm embeddings) = Inl e"
  shows "\<exists>i < length dataset. snd (sample_task run sched dataset metrics llm embeddings i) = Inl e"
proof -
  from assms have "Inl e \<in> set (as_completed (sample_picks sched)
        (map (\<lambda>i. snd (sample_task run sched dataset metrics llm embeddings i))
             [0..<length dataset]))"
    by (simp add: collect_results_tasks await_each_Inl)
  then show ?thesis
    by (auto simp: as_completed_set)
qed

lemma collect_results_raises:
  assumes "i < length dataset"
    and "snd (sample_task run sched dataset metrics llm embeddings i) = Inl e"
  shows "\<exists>e'. snd (collect_results run sched dataset metrics llm embeddings) = Inl e'"
proof -
  let ?os = "map (\<lambda>i. snd (sample_task run sched dataset metrics llm embeddings i))
               [0..<length dataset]"
  have "Inl e \<in> set ?os" using assms by force
  then have "Inl e \<in> set (as_completed (sample_picks sched) ?os)"
    by (simp only: as_completed_set)
  from await_each_raises [OF this] show ?thesis
    by (auto simp: collect_results_tasks)
qed

lemma evaluate_dataset_fst:
  "fst (evaluate_dataset run sched dataset metrics llm embeddings) =
     fst (collect_results run sched dataset metrics llm embeddings)"
  by (simp add: evaluate_dataset_def split: prod.splits sum.splits)

lemma evaluate_dataset_snd:
  "snd (evaluate_dataset run sched dataset metrics llm embeddings) =
     (case snd (collect_results run sched dataset metrics llm embeddings) of
        Inl e \<Rightarrow> Inl e
      | Inr rs \<Rightarrow> aggregate metrics rs)"
  by (simp add: evaluate_dataset_def split: prod.splits sum.splits)

section \<open>Claims about the evaluation of samples\<close>

text \<open>
  Claim C3: \<^verbatim>\<open>evaluate_sample\<close> invokes exactly the metric computers named in the requested
  list, each once and with the fields of the sample that it takes: the coroutines that it
  runs are those of the supported names that are requested. When none of the three metrics
  of the judge model is requested, as when only \<^verbatim>\<open>rouge_score\<close> is, no computer that is run
  is handed the judge model or the embedding model. Every computer that is invoked is
  awaited: when all return, the result of the sample holds, under the name of each metric,
  the score that its computer returned, and when one raises, an exception that an invoked
  computer raised leaves \<^verbatim>\<open>evaluate_sample\<close>.
\<close>

theorem evaluate_sample_invokes_requested:
  "(let invoked = fst (evaluate_sample run picks question answer contexts ground_truth metrics
                        llm embeddings);
        outcome = snd (evaluate_sample run picks question answer contexts ground_truth metrics
                        llm embeddings)
    in invoked =
         (if ''rouge_score'' \<in> set metrics
          then [compute_rouge_score answer ground_truth] else []) @
         (if ''answer_correctness'' \<in> set metrics
          then [compute_answer_correctness question answer ground_truth llm embeddings] else []) @
         (if ''coverage_score'' \<in> set metrics
          then [compute_coverage_score question ground_truth answer llm] else []) @
         (if ''faithfulness'' \<in> set metrics
          then [compute_faithfulness_score question answer contexts llm] else [])
       \<and> map metric_of invoked = filter (\<lambda>m. m \<in> set metrics) supported
       \<and> set (map metric_of invoked) = set metrics \<inter> set supported
       \<and> (''answer_correctness'' \<notin> set metrics \<and> ''coverage_score'' \<notin> set metrics \<and>
          ''faithfulness'' \<notin> set metrics \<longrightarrow>
            list_all (\<lambda>c. \<not> uses_llm c \<and> \<not> uses_embeddings c) invoked)
       \<and> (\<forall>scores. map run invoked = map Inr scores \<longrightarrow>
            outcome = Inr (zip (map metric_of invoked) scores))
       \<and> ((\<exists>c \<in> set invoked. \<exists>e. run c = Inl e) \<longrightarrow>
            (\<exists>c \<in> set invoked. \<exists>e. run c = Inl e \<and> outcome = Inl e)))"
proof -
  let ?invoked = "fst (evaluate_sample run picks question answer contexts ground_truth metrics
                         llm embeddings)"
  let ?outcome = "snd (evaluate_sample run picks question answer contexts ground_truth metrics
                         llm embeddings)"
  have made: "?invoked =
         (if ''rouge_score'' \<in> set metrics
          then [compute_rouge_score answer ground_truth] else []) @
         (if ''answer_correctness'' \<in> set metrics
          then [compute_answer_correctness question answer ground_truth llm embeddings] else []) @
         (if ''coverage_score'' \<in> set metrics
          then [compute_coverage_score question ground_truth answer llm] else []) @
         (if ''faithfulness'' \<in> set metrics
          then [compute_faithfulness_score question answer contexts llm] else [])"
    by (simp add: evaluate_sample_invoked sample_tasks_def)
  have names: "map metric_of ?invoked = filter (\<lambda>m. m \<in> set metrics) supported"
    unfolding made by (simp add: supported_def)
  have names_set: "set (map metric_of ?invoked) = set metrics \<inter> set supported"
    unfolding names by auto
  have no_model: "list_all (\<lambda>c. \<not> uses_llm c \<and> \<not> uses_embeddings c) ?invoked"
    if "''answer_correctness'' \<notin> set metrics \<and> ''coverage_score'' \<notin> set metrics \<and>
        ''faithfulness'' \<notin> set metrics"
    unfolding made using that by simp
  have succeed: "?outcome = Inr (zip (map metric_of ?invoked) scores)"
    if "map run ?invoked = map Inr scores" for scores
    unfolding names by (rule evaluate_sample_all_succeed [OF that])
  have fail: "\<exists>c \<in> set ?invoked. \<exists>e. run c = Inl e \<and> ?outcome = Inl e"
    if "\<exists>c \<in> set ?invoked. \<exists>e. run c = Inl e"
  proof -
    from that obtain c e where "c \<in> set ?invoked" and "run c = Inl e" by blast
    from evaluate_sample_raises [OF this] obtain e' where e': "?outcome = Inl e'" by blast
    from evaluate_sample_Inl [OF e'] obtain c' where "c' \<in> set ?invoked" and "run c' = Inl e'"
      by blast
    with e' show ?thesis by blast
  qed
  from made names names_set no_model succeed fail show ?thesis
    unfolding Let_def by blast
qed

theorem evaluate_sample_invokes_requested_witness:
  "fst (evaluate_sample (\<lambda>c. if uses_llm c then Inl (Raised ''no judge model'')
                              else Inr (PyFloat (Finite (1 / 2))))
          [] ''q'' ''a'' [''c''] ''g'' [''rouge_score''] (1::nat) (2::nat))
     = [compute_rouge_score ''a'' ''g'']
   \<and> ''answer_correctness'' \<notin> set [''rouge_score'']
   \<and> ''coverage_score'' \<notin> set [''rouge_score'']
   \<and> ''faithfulness'' \<notin> set [''rouge_score'']
   \<and> list_all (\<lambda>c. \<not> uses_llm c \<and> \<not> uses_embeddings c)
        (fst (evaluate_sample (\<lambda>c. if uses_llm c then Inl (Raised ''no judge model'')
                                    else Inr (PyFloat (Finite (1 / 2))))
                [] ''q'' ''a'' [''c''] ''g'' [''rouge_score''] (1::nat) (2::nat)))
   \<and> snd (evaluate_sample (\<lambda>c. if uses_llm c then Inl (Raised ''no judge model'')
                                else Inr (PyFloat (Finite (1 / 2))))
            [] ''q'' ''a'' [''c''] ''g'' [''rouge_score''] (1::nat) (2::nat))
       = Inr [(''rouge_score'', PyFloat (Finite (1 / 2)))]
   \<and> snd (evaluate_sample (\<lambda>c. if uses_llm c then Inl (Raised ''no judge model'')
                                else Inr (PyFloat (Finite (1 / 2))))
            [] ''q'' ''a'' [''c''] ''g'' [''rouge_score'', ''faithfulness''] (1::nat) (2::nat))
       = Inl (Raised ''no judge model'')"
proof -
  let ?run = "\<lambda>c :: (nat, nat) call.
                if uses_llm c then (Inl (Raised ''no judge model'') :: exn + pyval)
                else Inr (PyFloat (Finite (1 / 2)))"
  note one = evaluate_sample_invokes_requested
    [of ?run "[]" "''q''" "''a''" "[''c'']" "''g''" "[''rouge_score'']" "1::nat" "2::nat",
     unfolded Let_def]
  note two = evaluate_sample_invokes_requested
    [of ?run "[]" "''q''" "''a''" "[''c'']" "''g''" "[''rouge_score'', ''faithfulness'']"
        "1::nat" "2::nat", unfolded Let_def]
  from one have inv: "fst (evaluate_sample ?run [] ''q'' ''a'' [''c''] ''g'' [''rouge_score'']
                            (1::nat) (2::nat)) = [compute_rouge_score ''a'' ''g'']"
    by simp
  have none: "''answer_correctness'' \<notin> set [''rouge_score''] \<and>
              ''coverage_score'' \<notin> set [''rouge_score''] \<and>
              ''faithfulness'' \<notin> set [''rouge_score'']"
    by simp
  from one none have free: "list_all (\<lambda>c. \<not> uses_llm c \<and> \<not> uses_embeddings c)
        (fst (evaluate_sample ?run [] ''q'' ''a'' [''c''] ''g'' [''rouge_score'']
                (1::nat) (2::nat)))"
    by blast
  have "map ?run (fst (evaluate_sample ?run [] ''q'' ''a'' [''c''] ''g'' [''rouge_score'']
                         (1::nat) (2::nat))) = map Inr [PyFloat (Finite (1 / 2))]"
    unfolding inv by simp
  with one have "snd (evaluate_sample ?run [] ''q'' ''a'' [''c''] ''g'' [''rouge_score'']
                        (1::nat) (2::nat))
       = Inr (zip (map metric_of (fst (evaluate_sample ?run [] ''q'' ''a'' [''c''] ''g''
                      [''rouge_score''] (1::nat) (2::nat)))) [PyFloat (Finite (1 / 2))])"
    by blast
  then have res: "snd (evaluate_sample ?run [] ''q'' ''a'' [''c''] ''g'' [''rouge_score'']
                        (1::nat) (2::nat)) = Inr [(''rouge_score'', PyFloat (Finite (1 / 2)))]"
    unfolding inv by simp
  from two have inv2: "fst (evaluate_sample ?run [] ''q'' ''a'' [''c''] ''g''
                             [''rouge_score'', ''faithfulness''] (1::nat) (2::nat))
       = [compute_rouge_score ''a'' ''g'', compute_faithfulness_score ''q'' ''a'' [''c''] 1]"
    by simp
  have "\<exists>c \<in> set (fst (evaluate_sample ?run [] ''q'' ''a'' [''c''] ''g''
                        [''rouge_score'', ''faithfulness''] (1::nat) (2::nat))).
          \<exists>e. ?run c = Inl e"
    unfolding inv2 by simp
  with two obtain c e where
    "c \<in> set (fst (evaluate_sample ?run [] ''q'' ''a'' [''c''] ''g''
                     [''rouge_score'', ''faithfulness''] (1::nat) (2::nat)))" and
    "?run c = Inl e" and
    out: "snd (evaluate_sample ?run [] ''q'' ''a'' [''c''] ''g''
                 [''rouge_score'', ''faithfulness''] (1::nat) (2::nat)) = Inl e"
    by blast
  then have "e = Raised ''no judge model''"
    by (simp split: if_splits)
  with out have raised: "snd (evaluate_sample ?run [] ''q'' ''a'' [''c''] ''g''
                 [''rouge_score'', ''faithfulness''] (1::nat) (2::nat))
       = Inl (Raised ''no judge model'')"
    by simp
  from inv none free res raised show ?thesis by (intro conjI) simp_all
qed

text \<open>
  Claim C5: when the evaluation of no sample raises, \<^verbatim>\<open>evaluate_dataset\<close> collects as many
  per-sample results as the dataset has samples, and they are the results of the samples,
  each once, in some order: this for every order of completion. One evaluation is submitted
  for each sample, that of index \<open>i\<close> on the fields of sample \<open>i\<close>. The collected results
  are what is aggregated.
\<close>

theorem collect_results_complete:
  assumes "\<forall>i < length dataset.
             \<exists>r. snd (sample_task run sched dataset metrics llm embeddings i) = Inr r"
  shows "\<exists>rs. snd (collect_results run sched dataset metrics llm embeddings) = Inr rs
             \<and> length rs = length dataset
             \<and> mset (map Inr rs) =
                 mset (map (\<lambda>i. snd (sample_task run sched dataset metrics llm embeddings i))
                           [0..<length dataset])
             \<and> fst (evaluate_dataset run sched dataset metrics llm embeddings) =
                 map (\<lambda>i. fst (sample_task run sched dataset metrics llm embeddings i))
                     [0..<length dataset]
             \<and> snd (evaluate_dataset run sched dataset metrics llm embeddings) =
                 aggregate metrics rs"
proof (cases "snd (collect_results run sched dataset metrics llm embeddings)")
  case (Inl e)
  from collect_results_Inl [OF Inl] assms show ?thesis by auto
next
  case (Inr rs)
  note m = collect_results_Inr [OF Inr]
  have "length (map Inr rs :: (exn + pyval dict) list) =
        length (map (\<lambda>i. snd (sample_task run sched dataset metrics llm embeddings i))
                    [0..<length dataset])"
    using m by (rule mset_eq_length)
  then have "length rs = length dataset" by simp
  with Inr m show ?thesis
    by (simp add: evaluate_dataset_fst evaluate_dataset_snd collect_results_invoked)
qed

theorem collect_results_complete_witness:
  "snd (collect_results
          (\<lambda>c. case c of compute_rouge_score a g \<Rightarrow> Inr (PyStr a) | _ \<Rightarrow> Inl (Raised ''down''))
          \<lparr>sample_picks = [Suc 0], metric_picks = (\<lambda>i. [])\<rparr>
          [\<lparr>col_question = ''q0'', col_answer = ''a0'', col_contexts = [],
            col_ground_truth = ''g0''\<rparr>,
           \<lparr>col_question = ''q1'', col_answer = ''a1'', col_contexts = [],
            col_ground_truth = ''g1''\<rparr>]
          [''rouge_score''] (0::nat) (0::nat))
     = Inr [[(''rouge_score'', PyStr ''a1'')], [(''rouge_score'', PyStr ''a0'')]]
   \<and> (\<exists>rs. snd (collect_results
          (\<lambda>c. case c of compute_rouge_score a g \<Rightarrow> Inr (PyStr a) | _ \<Rightarrow> Inl (Raised ''down''))
          \<lparr>sample_picks = [Suc 0], metric_picks = (\<lambda>i. [])\<rparr>
          [\<lparr>col_question = ''q0'', col_answer = ''a0'', col_contexts = [],
            col_ground_truth = ''g0''\<rparr>,
           \<lparr>col_question = ''q1'', col_answer = ''a1'', col_contexts = [],
            col_ground_truth = ''g1''\<rparr>]
          [''rouge_score''] (0::nat) (0::nat)) = Inr rs
        \<and> length rs = 2)
   \<and> fst (evaluate_dataset
          (\<lambda>c. case c of compute_rouge_score a g \<Rightarrow> Inr (PyStr a) | _ \<Rightarrow> Inl (Raised ''down''))
          \<lparr>sample_picks = [Suc 0], metric_picks = (\<lambda>i. [])\<rparr>
          [\<lparr>col_question = ''q0'', col_answer = ''a0'', col_contexts = [],
            col_ground_truth = ''g0''\<rparr>,
           \<lparr>col_question = ''q1'', col_answer = ''a1'', col_contexts = [],
            col_ground_truth = ''g1''\<rparr>]
          [''rouge_score''] (0::nat) (0::nat))
     = [[compute_rouge_score ''a0'' ''g0''], [compute_rouge_score ''a1'' ''g1'']]"
proof -
  let ?run = "\<lambda>c :: (nat, nat) call.
                case c of compute_rouge_score a g \<Rightarrow> (Inr (PyStr a) :: exn + pyval)
                | _ \<Rightarrow> Inl (Raised ''down'')"
  let ?sched = "\<lparr>sample_picks = [Suc 0], metric_picks = (\<lambda>i. [])\<rparr>"
  let ?ds = "[\<lparr>col_question = ''q0'', col_answer = ''a0'', col_contexts = [],
               col_ground_truth = ''g0''\<rparr>,
              \<lparr>col_question = ''q1'', col_answer = ''a1'', col_contexts = [],
               col_ground_truth = ''g1''\<rparr>]"
  have t0: "sample_task ?run ?sched ?ds [''rouge_score''] (0::nat) (0::nat) 0 =
              ([compute_rouge_score ''a0'' ''g0''], Inr [(''rouge_score'', PyStr ''a0'')])"
    by (simp add: sample_task_def evaluate_sample_def sample_tasks_def gather_def)
  have t1: "sample_task ?run ?sched ?ds [''rouge_score''] (0::nat) (0::nat) (Suc 0) =
              ([compute_rouge_score ''a1'' ''g1''], Inr [(''rouge_score'', PyStr ''a1'')])"
    by (simp add: sample_task_def evaluate_sample_def sample_tasks_def gather_def)
  have hyp: "\<forall>i < length ?ds.
               \<exists>r. snd (sample_task ?run ?sched ?ds [''rouge_score''] (0::nat) (0::nat) i) = Inr r"
    using t0 t1 by (auto simp: less_Suc_eq)
  have upt: "[0..<length ?ds] = [0, Suc 0]"
    by (simp add: upt_rec)
  have order: "snd (collect_results ?run ?sched ?ds [''rouge_score''] (0::nat) (0::nat)) =
                 Inr [[(''rouge_score'', PyStr ''a1'')], [(''rouge_score'', PyStr ''a0'')]]"
    unfolding collect_results_tasks upt by (simp add: t0 t1)
  from collect_results_complete [OF hyp] obtain rs where
    rs: "snd (collect_results ?run ?sched ?ds [''rouge_score''] (0::nat) (0::nat)) = Inr rs" and
    len: "length rs = length ?ds" and
    inv: "fst (evaluate_dataset ?run ?sched ?ds [''rouge_score''] (0::nat) (0::nat)) =
            map (\<lambda>i. fst (sample_task ?run ?sched ?ds [''rouge_score''] (0::nat) (0::nat) i))
                [0..<length ?ds]"
    by blast
  from len have len2: "length rs = 2" by simp
  from inv have inv2: "fst (evaluate_dataset ?run ?sched ?ds [''rouge_score''] (0::nat) (0::nat)) =
            [[compute_rouge_score ''a0'' ''g0''], [compute_rouge_score ''a1'' ''g1'']]"
    unfolding upt by (simp add: t0 t1)
  from order rs len2 inv2 show ?thesis by blast
qed

section \<open>Properties of the aggregate of a dataset\<close>

lemma sample_task_keys:
  assumes "snd (sample_task run sched dataset metrics llm embeddings i) = Inr r"
  shows "map fst r = filter (\<lambda>m. m \<in> set metrics) supported"
  using assms unfolding sample_task_def by (rule evaluate_sample_keys)

lemma sample_task_values:
  assumes "snd (sample_task run sched dataset metrics llm embeddings i) = Inr r"
    and "(k, v) \<in> set r"
  shows "\<exists>c \<in> set (fst (sample_task run sched dataset metrics llm embeddings i)). run c = Inr v"
proof -
  from evaluate_sample_Inr [OF assms(1) [unfolded sample_task_def]] obtain vs where
    eq: "map run (fst (sample_task run sched dataset metrics llm embeddings i)) = map Inr vs" and
    r: "r = zip (filter (\<lambda>m. m \<in> set metrics) supported) vs"
    unfolding sample_task_def by blast
  from assms(2) r have "v \<in> set vs" by (metis set_zip_rightD)
  then have "Inr v \<in> set (map run (fst (sample_task run sched dataset metrics llm embeddings i)))"
    unfolding eq by simp
  then have "Inr v \<in> run ` set (fst (sample_task run sched dataset metrics llm embeddings i))"
    by (simp only: set_map)
  then obtain c where "c \<in> set (fst (sample_task run sched dataset metrics llm embeddings i))"
    and "Inr v = run c"
    by (rule imageE)
  then show ?thesis by (intro bexI [of _ c]) simp_all
qed

lemma collected_results_succeed:
  assumes coll: "snd (collect_results run sched dataset metrics llm embeddings) = Inr rs"
    and held: "\<forall>r \<in> set rs. \<forall>(k, v) \<in> set r. held_by_numpy v"
  shows "\<exists>d. add_samples rs (init_results metrics) = Inr d"
proof -
  have "accepted (fst ` set (init_results metrics)) (k, v)" if "r \<in> set rs" "(k, v) \<in> set r"
    for r k v
  proof -
    from collect_results_member [OF coll that(1)] obtain i where
      "snd (sample_task run sched dataset metrics llm embeddings i) = Inr r" by blast
    then have "map fst r = filter (\<lambda>m. m \<in> set metrics) supported"
      by (rule sample_task_keys)
    moreover have "k \<in> set (map fst r)" using that(2) by force
    ultimately have "k \<in> set metrics" by simp
    then have "k \<in> fst ` set (init_results metrics)"
      using init_results_dom [of metrics] by simp
    moreover have "held_by_numpy v" using held that by blast
    ultimately show ?thesis by (intro accepted_held)
  qed
  then have "list_all (list_all (accepted (fst ` set (init_results metrics)))) rs"
    by (auto simp: list_all_iff)
  then show ?thesis
    using add_samples_succeeds [of rs "init_results metrics"] by simp
qed

lemma aggregate_Inr:
  assumes "aggregate metrics rs = Inr agg"
  shows "agg = map (\<lambda>k. (k, nanmean_of (collected k rs))) (map fst (init_results metrics))"
proof -
  from assms obtain d where "add_samples rs (init_results metrics) = Inr d"
    by (auto simp: aggregate_def split: sum.splits)
  from aggregate_ok [OF this] assms show ?thesis by simp
qed

lemma aggregate_keys:
  assumes "aggregate metrics rs = Inr agg"
  shows "set (map fst agg) = set metrics" and "distinct (map fst agg)"
proof -
  have "map fst agg = map fst (init_results metrics)"
    unfolding aggregate_Inr [OF assms] by (simp add: comp_def)
  then show "set (map fst agg) = set metrics" and "distinct (map fst agg)"
    using init_results_dom [of metrics] init_results_distinct [of metrics] by simp_all
qed

lemma aggregate_lookup:
  assumes "aggregate metrics rs = Inr agg" and "m \<in> set metrics"
  shows "map_of agg m = Some (nanmean_of (collected m rs))"
proof -
  have "m \<in> set (map fst (init_results metrics))"
    using assms(2) init_results_dom [of metrics] by simp
  then show ?thesis
    unfolding aggregate_Inr [OF assms(1)] by (rule map_of_keyed)
qed

lemma collected_absent:
  "\<forall>r \<in> set rs. m \<notin> fst ` set r \<Longrightarrow> collected m rs = []"
  by (force simp: collected_def scores_of_def filter_empty_conv)

section \<open>Claims about the aggregate of a dataset\<close>

text \<open>
  Claim C1, as stated: the aggregate of a metric is the arithmetic mean of the well-defined
  scores gathered for it. It fails on two samples whose scores are both \<^verbatim>\<open>2**1023\<close>: their
  sum overflows and the aggregate is positive infinity, where their arithmetic mean is
  \<^verbatim>\<open>2**1023\<close>. It fails on the int score \<^verbatim>\<open>2**53 + 1\<close>, which becomes the float \<^verbatim>\<open>2**53\<close>,
  and on the int score \<^verbatim>\<open>2**64\<close>, on which \<^verbatim>\<open>np.isnan\<close> raises \<^verbatim>\<open>TypeError\<close>, so that no
  aggregate is returned.
\<close>

theorem evaluate_dataset_mean_overflows:
  "evaluate_dataset (\<lambda>c. Inr (PyFloat (Finite (2 ^ 1023))))
       \<lparr>sample_picks = [], metric_picks = (\<lambda>i. [])\<rparr>
       [\<lparr>col_question = ''q0'', col_answer = ''a0'', col_contexts = [],
         col_ground_truth = ''g0''\<rparr>,
        \<lparr>col_question = ''q1'', col_answer = ''a1'', col_contexts = [],
         col_ground_truth = ''g1''\<rparr>]
       [''rouge_score''] (0::nat) (0::nat)
     = ([[compute_rouge_score ''a0'' ''g0''], [compute_rouge_score ''a1'' ''g1'']],
        Inr [(''rouge_score'', PosInf)])
   \<and> aggregate [''rouge_score''] [[(''rouge_score'', PyInt 9007199254740993)]]
     = Inr [(''rouge_score'', Finite 9007199254740992)]
   \<and> aggregate [''rouge_score''] [[(''rouge_score'', PyInt (2 ^ 64))]] = Inl TypeError"
proof -
  let ?run = "\<lambda>c :: (nat, nat) call. (Inr (PyFloat (Finite (2 ^ 1023))) :: exn + pyval)"
  let ?sched = "\<lparr>sample_picks = [], metric_picks = (\<lambda>i. [])\<rparr>"
  let ?ds = "[\<lparr>col_question = ''q0'', col_answer = ''a0'', col_contexts = [],
               col_ground_truth = ''g0''\<rparr>,
              \<lparr>col_question = ''q1'', col_answer = ''a1'', col_contexts = [],
               col_ground_truth = ''g1''\<rparr>]"
  let ?ms = "[''rouge_score'']"
  let ?inv = "[[compute_rouge_score ''a0'' ''g0''], [compute_rouge_score ''a1'' ''g1'']]
              :: (nat, nat) call list list"
  let ?rs = "[[(''rouge_score'', PyFloat (Finite (2 ^ 1023)))],
              [(''rouge_score'', PyFloat (Finite (2 ^ 1023)))]]"
  have t0: "sample_task ?run ?sched ?ds ?ms (0::nat) (0::nat) 0 = (?inv ! 0, Inr (?rs ! 0))"
    by (simp add: sample_task_def evaluate_sample_def sample_tasks_def gather_def)
  have t1: "sample_task ?run ?sched ?ds ?ms (0::nat) (0::nat) (Suc 0) =
              (?inv ! Suc 0, Inr (?rs ! Suc 0))"
    by (simp add: sample_task_def evaluate_sample_def sample_tasks_def gather_def)
  have upt: "[0..<length ?ds] = [0, Suc 0]"
    by (simp add: upt_rec)
  have coll: "collect_results ?run ?sched ?ds ?ms (0::nat) (0::nat) = (?inv, Inr ?rs)"
    using t0 t1 unfolding collect_results_tasks upt by simp
  have big: "round64 (2 ^ 1023) = Finite (2 ^ 1023)"
    using round64_exact [of "2 ^ 1023" "2 ^ 53" 970] by simp
  have over: "round64 (2 ^ 1023 + 2 ^ 1023) = PosInf"
    by (rule round64_overflow [of 1024 _ 972 "2 ^ 1024"])
       (simp_all add: round_half_even_def Let_def)
  have m: "np_nanmean [PyFloat (Finite (2 ^ 1023)), PyFloat (Finite (2 ^ 1023))] = Inr PosInf"
    using big over
    by (simp add: np_nanmean_def integer_array_def pairwise_short seq_sum_def)
  have agg: "aggregate ?ms ?rs = Inr [(''rouge_score'', PosInf)]"
    using m by (simp add: aggregate_def init_results_def)
  have one: "evaluate_dataset ?run ?sched ?ds ?ms (0::nat) (0::nat) =
               (?inv, Inr [(''rouge_score'', PosInf)])"
    using coll agg by (simp add: evaluate_dataset_def)
  have odd: "round64 (of_int 9007199254740993) = Finite 9007199254740992"
    by (rule round64_eval [of 53 _ 1]) (simp_all add: round_half_even_def Let_def)
  have even: "round64 9007199254740992 = Finite 9007199254740992"
    using round64_small_int [of 9007199254740992] by simp
  have mi: "np_nanmean [PyInt 9007199254740993] = Inr (Finite 9007199254740992)"
    using odd even
    by (simp add: np_nanmean_def integer_array_def chunked_sum_short pairwise_short seq_sum_def)
  have two: "aggregate ?ms [[(''rouge_score'', PyInt 9007199254740993)]] =
               Inr [(''rouge_score'', Finite 9007199254740992)]"
    using mi by (simp add: aggregate_def init_results_def)
  have three: "aggregate ?ms [[(''rouge_score'', PyInt (2 ^ 64))]] = Inl TypeError"
    by (simp add: aggregate_def init_results_def)
  from one two three show ?thesis by (intro conjI)
qed

text \<open>
  Claim C1, amended: when the per-sample results have been collected and hold no int beyond
  64 bits, \<^verbatim>\<open>evaluate_dataset\<close> returns a mapping and does not raise, and for every requested
  metric the aggregate is \<^verbatim>\<open>np.nanmean\<close> of the well-defined scores gathered for it across
  the samples. When no well-defined score was gathered, the aggregate is not-a-number,
  which is not \<^verbatim>\<open>0.0\<close>. When scores were gathered, are finite as floats and add up without
  rounding, the aggregate is their arithmetic mean, rounded to the nearest float. In
  general the sum is rounded after every addition and overflows to an infinity.
\<close>

theorem evaluate_dataset_mean:
  assumes coll: "collect_results run sched dataset metrics llm embeddings =
                   (invoked, Inr sample_results)"
    and held: "\<forall>r \<in> set sample_results. \<forall>(k, v) \<in> set r. held_by_numpy v"
    and m: "m \<in> set metrics"
  shows "\<exists>agg mu. evaluate_dataset run sched dataset metrics llm embeddings = (invoked, Inr agg)
           \<and> np_nanmean (collected m sample_results) = Inr mu
           \<and> map_of agg m = Some mu
           \<and> (collected m sample_results = [] \<longrightarrow> mu = NaN \<and> mu \<noteq> Finite 0)
           \<and> (\<forall>q xs. xs \<noteq> [] \<and> map float_of (collected m sample_results) = map Finite xs \<and>
                     exact_grid q xs \<longrightarrow>
                mu = round64 (sum_list xs / real (length xs)))"
proof -
  let ?mu = "nanmean_of (collected m sample_results)"
  from coll have snd_coll:
    "snd (collect_results run sched dataset metrics llm embeddings) = Inr sample_results"
    by simp
  from collected_results_succeed [OF snd_coll held] obtain d where
    "add_samples sample_results (init_results metrics) = Inr d" by blast
  from aggregate_ok [OF this] obtain agg where
    agg: "aggregate metrics sample_results = Inr agg" by blast
  have ev: "evaluate_dataset run sched dataset metrics llm embeddings = (invoked, Inr agg)"
    using coll agg by (simp add: evaluate_dataset_def)
  have mean: "np_nanmean (collected m sample_results) = Inr ?mu"
    by (rule np_nanmean_well_defined [OF collected_well_defined])
  note look = aggregate_lookup [OF agg m]
  have empty: "?mu = NaN \<and> ?mu \<noteq> Finite 0" if "collected m sample_results = []"
    using that by (simp add: nanmean_of_Nil)
  have exact: "?mu = round64 (sum_list xs / real (length xs))"
    if "xs \<noteq> [] \<and> map float_of (collected m sample_results) = map Finite xs \<and> exact_grid q xs"
    for q xs
  proof -
    from that have "np_nanmean (collected m sample_results) =
                    Inr (round64 (sum_list xs / real (length xs)))"
      by (intro np_nanmean_exact [of _ _ q] collected_well_defined) simp_all
    with mean show ?thesis by simp
  qed
  from ev mean look empty exact show ?thesis by blast
qed

theorem evaluate_dataset_mean_witness:
  "collected ''faithfulness''
     [[(''rouge_score'', PyFloat (Finite (1 / 2))), (''faithfulness'', PyFloat NaN)],
      [(''rouge_score'', PyFloat (Finite 1)), (''faithfulness'', PyFloat NaN)]] = []
   \<and> exact_grid (- 1) [1 / 2, 1]
   \<and> (\<exists>agg. evaluate_dataset
          (\<lambda>c. case c of
                  compute_rouge_score a g \<Rightarrow> Inr (PyFloat (Finite (if a = g then 1 else 1 / 2)))
                | _ \<Rightarrow> Inr (PyFloat NaN))
          \<lparr>sample_picks = [], metric_picks = (\<lambda>i. [])\<rparr>
          [\<lparr>col_question = ''q0'', col_answer = ''a0'', col_contexts = [],
            col_ground_truth = ''g0''\<rparr>,
           \<lparr>col_question = ''q1'', col_answer = ''g1'', col_contexts = [],
            col_ground_truth = ''g1''\<rparr>]
          [''rouge_score'', ''faithfulness''] (0::nat) (0::nat)
        = ([[compute_rouge_score ''a0'' ''g0'', compute_faithfulness_score ''q0'' ''a0'' [] 0],
            [compute_rouge_score ''g1'' ''g1'', compute_faithfulness_score ''q1'' ''g1'' [] 0]],
           Inr agg)
      \<and> map_of agg ''faithfulness'' = Some NaN
      \<and> map_of agg ''rouge_score'' = Some (Finite (3 / 4)))"
proof -
  let ?run = "\<lambda>c :: (nat, nat) call. case c of
                  compute_rouge_score a g \<Rightarrow>
                    (Inr (PyFloat (Finite (if a = g then 1 else 1 / 2))) :: exn + pyval)
                | _ \<Rightarrow> Inr (PyFloat NaN)"
  let ?sched = "\<lparr>sample_picks = [], metric_picks = (\<lambda>i. [])\<rparr>"
  let ?ds = "[\<lparr>col_question = ''q0'', col_answer = ''a0'', col_contexts = [],
               col_ground_truth = ''g0''\<rparr>,
              \<lparr>col_question = ''q1'', col_answer = ''g1'', col_contexts = [],
               col_ground_truth = ''g1''\<rparr>]"
  let ?ms = "[''rouge_score'', ''faithfulness'']"
  let ?inv = "[[compute_rouge_score ''a0'' ''g0'', compute_faithfulness_score ''q0'' ''a0'' [] 0],
               [compute_rouge_score ''g1'' ''g1'', compute_faithfulness_score ''q1'' ''g1'' [] 0]]
              :: (nat, nat) call list list"
  let ?rs = "[[(''rouge_score'', PyFloat (Finite (1 / 2))), (''faithfulness'', PyFloat NaN)],
              [(''rouge_score'', PyFloat (Finite 1)), (''faithfulness'', PyFloat NaN)]]"
  have t0: "sample_task ?run ?sched ?ds ?ms (0::nat) (0::nat) 0 = (?inv ! 0, Inr (?rs ! 0))"
    by (simp add: sample_task_def evaluate_sample_def sample_tasks_def gather_def)
  have t1: "sample_task ?run ?sched ?ds ?ms (0::nat) (0::nat) (Suc 0) =
              (?inv ! Suc 0, Inr (?rs ! Suc 0))"
    by (simp add: sample_task_def evaluate_sample_def sample_tasks_def gather_def)
  have upt: "[0..<length ?ds] = [0, Suc 0]"
    by (simp add: upt_rec)
  have coll: "collect_results ?run ?sched ?ds ?ms (0::nat) (0::nat) = (?inv, Inr ?rs)"
    unfolding collect_results_tasks upt by (simp add: t0 t1)
  have held: "\<forall>r \<in> set ?rs. \<forall>(k, v) \<in> set r. held_by_numpy v"
    by simp
  have none: "collected ''faithfulness'' ?rs = []"
    by (simp add: collected_def scores_of_def)
  have grid: "exact_grid (- 1) [1 / 2, 1]"
    by (simp add: exact_grid_def on_grid_def power_int_minus)
  have some: "(1 / 2 # [1 :: real]) \<noteq> [] \<and>
              map float_of (collected ''rouge_score'' ?rs) = map Finite (1 / 2 # [1 :: real]) \<and>
              exact_grid (- 1) (1 / 2 # [1 :: real])"
    using grid by (simp add: collected_def scores_of_def)
  have r: "round64 (3 / 4) = Finite (3 / 4)"
    using round64_dyadic [of 3 2] by simp
  from evaluate_dataset_mean [OF coll held, of "''faithfulness''"] obtain agg mu where
    ev: "evaluate_dataset ?run ?sched ?ds ?ms (0::nat) (0::nat) = (?inv, Inr agg)" and
    at: "map_of agg ''faithfulness'' = Some mu" and
    nan_if: "collected ''faithfulness'' ?rs = [] \<longrightarrow> mu = NaN \<and> mu \<noteq> Finite 0"
    by auto
  from nan_if none at have nan: "map_of agg ''faithfulness'' = Some NaN"
    by blast
  from evaluate_dataset_mean [OF coll held, of "''rouge_score''"] obtain agg' mu' where
    ev': "evaluate_dataset ?run ?sched ?ds ?ms (0::nat) (0::nat) = (?inv, Inr agg')" and
    at': "map_of agg' ''rouge_score'' = Some mu'" and
    fin: "\<forall>q xs. xs \<noteq> [] \<and> map float_of (collected ''rouge_score'' ?rs) = map Finite xs \<and>
                 exact_grid q xs \<longrightarrow>
               mu' = round64 (sum_list xs / real (length xs))"
    by auto
  from ev ev' have same: "agg' = agg"
    by simp
  from fin some have "mu' =
      round64 (sum_list (1 / 2 # [1 :: real]) / real (length (1 / 2 # [1 :: real])))"
    by blast
  then have "mu' = Finite (3 / 4)"
    using r by simp
  with at' have "map_of agg ''rouge_score'' = Some (Finite (3 / 4))"
    unfolding same by simp
  with ev nan have "\<exists>agg. evaluate_dataset ?run ?sched ?ds ?ms (0::nat) (0::nat) = (?inv, Inr agg)
      \<and> map_of agg ''faithfulness'' = Some NaN
      \<and> map_of agg ''rouge_score'' = Some (Finite (3 / 4))"
    by blast
  with none grid show ?thesis by (intro conjI)
qed

text \<open>
  Claim C7: when a metric computation of a sample raises, the evaluation of that sample
  raises an exception of one of its metric computations, and \<^verbatim>\<open>evaluate_dataset\<close> raises
  the exception of an evaluation of a sample, which a metric computation raised: no
  mapping is returned and the exception is not turned into a score. When all the metric
  computations that fail raise one exception, that exception leaves both functions.
\<close>

theorem metric_exception_propagates:
  assumes i: "i < length dataset"
    and c: "c \<in> set (fst (sample_task run sched dataset metrics llm embeddings i))"
    and e: "run c = Inl e"
  shows "(\<exists>e1 c1. c1 \<in> set (fst (sample_task run sched dataset metrics llm embeddings i))
            \<and> run c1 = Inl e1
            \<and> snd (sample_task run sched dataset metrics llm embeddings i) = Inl e1)
       \<and> (\<exists>e2 j c2. j < length dataset
            \<and> c2 \<in> set (fst (sample_task run sched dataset metrics llm embeddings j))
            \<and> run c2 = Inl e2
            \<and> snd (sample_task run sched dataset metrics llm embeddings j) = Inl e2
            \<and> snd (evaluate_dataset run sched dataset metrics llm embeddings) = Inl e2)
       \<and> ((\<forall>j c' e'. j < length dataset
              \<and> c' \<in> set (fst (sample_task run sched dataset metrics llm embeddings j))
              \<and> run c' = Inl e' \<longrightarrow> e' = e) \<longrightarrow>
            snd (sample_task run sched dataset metrics llm embeddings i) = Inl e
            \<and> snd (evaluate_dataset run sched dataset metrics llm embeddings) = Inl e)"
proof -
  from evaluate_sample_raises [OF c [unfolded sample_task_def] e] obtain e1 where
    e1: "snd (sample_task run sched dataset metrics llm embeddings i) = Inl e1"
    unfolding sample_task_def by blast
  from evaluate_sample_Inl [OF e1 [unfolded sample_task_def]] obtain c1 where
    c1: "c1 \<in> set (fst (sample_task run sched dataset metrics llm embeddings i))"
      "run c1 = Inl e1"
    unfolding sample_task_def by blast
  from collect_results_raises [OF i e1] obtain e2 where
    e2: "snd (collect_results run sched dataset metrics llm embeddings) = Inl e2"
    by blast
  from collect_results_Inl [OF e2] obtain j where
    j: "j < length dataset"
      "snd (sample_task run sched dataset metrics llm embeddings j) = Inl e2"
    by blast
  from evaluate_sample_Inl [OF j(2) [unfolded sample_task_def]] obtain c2 where
    c2: "c2 \<in> set (fst (sample_task run sched dataset metrics llm embeddings j))"
      "run c2 = Inl e2"
    unfolding sample_task_def by blast
  have ev: "snd (evaluate_dataset run sched dataset metrics llm embeddings) = Inl e2"
    using e2 by (simp add: evaluate_dataset_snd)
  have first: "\<exists>e1 c1. c1 \<in> set (fst (sample_task run sched dataset metrics llm embeddings i))
            \<and> run c1 = Inl e1
            \<and> snd (sample_task run sched dataset metrics llm embeddings i) = Inl e1"
    using e1 c1 by blast
  have second: "\<exists>e2 j c2. j < length dataset
            \<and> c2 \<in> set (fst (sample_task run sched dataset metrics llm embeddings j))
            \<and> run c2 = Inl e2
            \<and> snd (sample_task run sched dataset metrics llm embeddings j) = Inl e2
            \<and> snd (evaluate_dataset run sched dataset metrics llm embeddings) = Inl e2"
    using j c2 ev by blast
  have third: "snd (sample_task run sched dataset metrics llm embeddings i) = Inl e
            \<and> snd (evaluate_dataset run sched dataset metrics llm embeddings) = Inl e"
    if only: "\<forall>j c' e'. j < length dataset
              \<and> c' \<in> set (fst (sample_task run sched dataset metrics llm embeddings j))
              \<and> run c' = Inl e' \<longrightarrow> e' = e"
  proof -
    have "e1 = e" using only i c1 by blast
    moreover have "e2 = e" using only j(1) c2 by blast
    ultimately show ?thesis using e1 ev by simp
  qed
  from first second third show ?thesis by blast
qed

theorem metric_exception_propagates_witness:
  "snd (evaluate_dataset
          (\<lambda>c. case c of
                  compute_faithfulness_score q a ctx l \<Rightarrow>
                    if q = ''q1'' then Inl (Raised ''judge model failed'')
                    else Inr (PyFloat (Finite 1))
                | _ \<Rightarrow> Inr (PyFloat (Finite 1)))
          \<lparr>sample_picks = [], metric_picks = (\<lambda>i. [])\<rparr>
          [\<lparr>col_question = ''q0'', col_answer = ''a0'', col_contexts = [],
            col_ground_truth = ''g0''\<rparr>,
           \<lparr>col_question = ''q1'', col_answer = ''a1'', col_contexts = [],
            col_ground_truth = ''g1''\<rparr>]
          [''rouge_score'', ''faithfulness''] (0::nat) (0::nat))
     = Inl (Raised ''judge model failed'')"
proof -
  let ?run = "\<lambda>c :: (nat, nat) call. case c of
                  compute_faithfulness_score q a ctx l \<Rightarrow>
                    if q = ''q1'' then (Inl (Raised ''judge model failed'') :: exn + pyval)
                    else Inr (PyFloat (Finite 1))
                | _ \<Rightarrow> Inr (PyFloat (Finite 1))"
  let ?sched = "\<lparr>sample_picks = [], metric_picks = (\<lambda>i. [])\<rparr>"
  let ?ds = "[\<lparr>col_question = ''q0'', col_answer = ''a0'', col_contexts = [],
               col_ground_truth = ''g0''\<rparr>,
              \<lparr>col_question = ''q1'', col_answer = ''a1'', col_contexts = [],
               col_ground_truth = ''g1''\<rparr>]"
  let ?ms = "[''rouge_score'', ''faithfulness'']"
  have i: "Suc 0 < length ?ds" by simp
  have c: "compute_faithfulness_score ''q1'' ''a1'' [] 0
             \<in> set (fst (sample_task ?run ?sched ?ds ?ms (0::nat) (0::nat) (Suc 0)))"
    by (simp add: sample_task_def evaluate_sample_invoked sample_tasks_def)
  have e: "?run (compute_faithfulness_score ''q1'' ''a1'' [] 0) = Inl (Raised ''judge model failed'')"
    by simp
  have only: "\<forall>j c' e'. j < length ?ds
              \<and> c' \<in> set (fst (sample_task ?run ?sched ?ds ?ms (0::nat) (0::nat) j))
              \<and> ?run c' = Inl e' \<longrightarrow> e' = Raised ''judge model failed''"
    by (auto split: call.splits if_splits)
  from metric_exception_propagates [OF i c e] only show ?thesis
    by blast
qed

section \<open>When \<^verbatim>\<open>evaluate_dataset\<close> returns\<close>

lemma sample_task_invoked_subset:
  "i < length dataset \<Longrightarrow>
   set (fst (sample_task run sched dataset metrics llm embeddings i))
     \<subseteq> set (concat (fst (evaluate_dataset run sched dataset metrics llm embeddings)))"
  by (auto simp: evaluate_dataset_fst collect_results_invoked)

lemma evaluate_dataset_total:
  assumes ok: "\<forall>c \<in> set (concat (fst (evaluate_dataset run sched dataset metrics llm embeddings))).
                 \<exists>v. run c = Inr v \<and> held_by_numpy v"
  shows "\<exists>agg. snd (evaluate_dataset run sched dataset metrics llm embeddings) = Inr agg"
proof (cases "snd (collect_results run sched dataset metrics llm embeddings)")
  case (Inl e)
  from collect_results_Inl [OF Inl] obtain i where
    i: "i < length dataset" and
    t: "snd (sample_task run sched dataset metrics llm embeddings i) = Inl e"
    by blast
  from evaluate_sample_Inl [OF t [unfolded sample_task_def]] obtain c where
    "c \<in> set (fst (sample_task run sched dataset metrics llm embeddings i))" "run c = Inl e"
    unfolding sample_task_def by blast
  with sample_task_invoked_subset [OF i, of run sched metrics llm embeddings] ok
  show ?thesis by fastforce
next
  case (Inr rs)
  have held: "\<forall>r \<in> set rs. \<forall>(k, v) \<in> set r. held_by_numpy v"
  proof (intro ballI, clarify)
    fix r k v
    assume r: "r \<in> set rs" and kv: "(k, v) \<in> set r"
    from collect_results_member [OF Inr r] obtain i where
      i: "i < length dataset" and
      t: "snd (sample_task run sched dataset metrics llm embeddings i) = Inr r"
      by blast
    from sample_task_values [OF t kv] obtain c where
      "c \<in> set (fst (sample_task run sched dataset metrics llm embeddings i))" "run c = Inr v"
      by blast
    with sample_task_invoked_subset [OF i, of run sched metrics llm embeddings] ok
    show "held_by_numpy v" by fastforce
  qed
  from collected_results_succeed [OF Inr held] obtain d where
    "add_samples rs (init_results metrics) = Inr d" by blast
  from aggregate_ok [OF this] Inr show ?thesis
    by (simp add: evaluate_dataset_snd)
qed

lemma evaluate_dataset_unsupported:
  assumes ev: "snd (evaluate_dataset run sched dataset metrics llm embeddings) = Inr agg"
    and m: "m \<in> set metrics" and un: "m \<notin> set supported"
  shows "map_of agg m = Some NaN"
proof -
  from ev obtain rs where
    coll: "snd (collect_results run sched dataset metrics llm embeddings) = Inr rs" and
    agg: "aggregate metrics rs = Inr agg"
    by (auto simp: evaluate_dataset_snd split: sum.splits)
  have "m \<notin> fst ` set r" if "r \<in> set rs" for r
  proof -
    from collect_results_member [OF coll that] obtain i where
      "snd (sample_task run sched dataset metrics llm embeddings i) = Inr r" by blast
    then have "map fst r = filter (\<lambda>m. m \<in> set metrics) supported"
      by (rule sample_task_keys)
    then have "set (map fst r) \<subseteq> set supported" by auto
    with un show ?thesis by auto
  qed
  then have "collected m rs = []"
    by (intro collected_absent) blast
  with aggregate_lookup [OF agg m] show ?thesis
    by (simp add: nanmean_of_Nil)
qed

text \<open>
  Claim C10: the mapping that \<^verbatim>\<open>evaluate_dataset\<close> returns has the requested metric names
  as its keys, each once. A requested name that is none of the four supported ones is in no
  per-sample result, the keys of which are the supported names that are requested, and its
  aggregate is not-a-number. It causes no error: \<^verbatim>\<open>evaluate_dataset\<close> returns a mapping
  whenever every metric computation it invokes returns a score that numpy holds, whatever
  the requested names.
\<close>

theorem evaluate_dataset_requested_keys:
  "(\<forall>agg. snd (evaluate_dataset run sched dataset metrics llm embeddings) = Inr agg \<longrightarrow>
       set (map fst agg) = set metrics \<and> distinct (map fst agg) \<and>
       (\<forall>m \<in> set metrics. m \<notin> set supported \<longrightarrow> map_of agg m = Some NaN))
   \<and> (\<forall>r. snd (evaluate_sample run picks question answer contexts ground_truth metrics llm
                embeddings) = Inr r \<longrightarrow>
          set (map fst r) = set metrics \<inter> set supported)
   \<and> ((\<forall>c \<in> set (concat (fst (evaluate_dataset run sched dataset metrics llm embeddings))).
          \<exists>v. run c = Inr v \<and> held_by_numpy v) \<longrightarrow>
       (\<exists>agg. snd (evaluate_dataset run sched dataset metrics llm embeddings) = Inr agg))"
proof (intro conjI allI impI)
  fix agg
  assume ev: "snd (evaluate_dataset run sched dataset metrics llm embeddings) = Inr agg"
  then obtain rs where agg: "aggregate metrics rs = Inr agg"
    by (auto simp: evaluate_dataset_snd split: sum.splits)
  show "set (map fst agg) = set metrics" and "distinct (map fst agg)"
    using aggregate_keys [OF agg] by simp_all
  show "\<forall>m \<in> set metrics. m \<notin> set supported \<longrightarrow> map_of agg m = Some NaN"
    using evaluate_dataset_unsupported [OF ev] by blast
next
  fix r
  assume "snd (evaluate_sample run picks question answer contexts ground_truth metrics llm
                embeddings) = Inr r"
  from evaluate_sample_keys [OF this] show "set (map fst r) = set metrics \<inter> set supported"
    by auto
next
  assume "\<forall>c \<in> set (concat (fst (evaluate_dataset run sched dataset metrics llm embeddings))).
            \<exists>v. run c = Inr v \<and> held_by_numpy v"
  then show "\<exists>agg. snd (evaluate_dataset run sched dataset metrics llm embeddings) = Inr agg"
    by (rule evaluate_dataset_total)
qed

theorem evaluate_dataset_requested_keys_witness:
  "(\<exists>agg. snd (evaluate_dataset (\<lambda>c. Inr (PyFloat (Finite 1)))
             \<lparr>sample_picks = [], metric_picks = (\<lambda>i. [])\<rparr>
             [\<lparr>col_question = ''q0'', col_answer = ''a0'', col_contexts = [],
               col_ground_truth = ''g0''\<rparr>]
             [''rouge_score'', ''bleu''] (0::nat) (0::nat)) = Inr agg
        \<and> set (map fst agg) = set [''rouge_score'', ''bleu'']
        \<and> map_of agg ''bleu'' = Some NaN)
   \<and> snd (evaluate_sample (\<lambda>c. Inr (PyFloat (Finite 1))) [] ''q0'' ''a0'' [] ''g0''
            [''rouge_score'', ''bleu''] (0::nat) (0::nat))
       = Inr [(''rouge_score'', PyFloat (Finite 1))]
   \<and> set (map fst [(''rouge_score'', PyFloat (Finite 1))])
       = set [''rouge_score'', ''bleu''] \<inter> set supported"
proof -
  let ?run = "\<lambda>c :: (nat, nat) call. (Inr (PyFloat (Finite 1)) :: exn + pyval)"
  let ?sched = "\<lparr>sample_picks = [], metric_picks = (\<lambda>i. [])\<rparr>"
  let ?ds = "[\<lparr>col_question = ''q0'', col_answer = ''a0'', col_contexts = [],
               col_ground_truth = ''g0''\<rparr>]"
  let ?ms = "[''rouge_score'', ''bleu'']"
  note inst = evaluate_dataset_requested_keys
    [of ?run ?sched ?ds ?ms "0::nat" "0::nat" "[]" "''q0''" "''a0''" "[]" "''g0''"]
  have ok: "\<forall>c \<in> set (concat (fst (evaluate_dataset ?run ?sched ?ds ?ms (0::nat) (0::nat)))).
              \<exists>v. ?run c = Inr v \<and> held_by_numpy v"
    by simp
  from inst ok obtain agg where
    ev: "snd (evaluate_dataset ?run ?sched ?ds ?ms (0::nat) (0::nat)) = Inr agg"
    by blast
  from inst ev have keys: "set (map fst agg) = set ?ms"
    and un: "\<forall>m \<in> set ?ms. m \<notin> set supported \<longrightarrow> map_of agg m = Some NaN"
    by blast+
  have "''bleu'' \<in> set ?ms" and "''bleu'' \<notin> set supported"
    by (simp_all add: supported_def)
  with un have nan: "map_of agg ''bleu'' = Some NaN"
    by blast
  have sample: "snd (evaluate_sample ?run [] ''q0'' ''a0'' [] ''g0'' ?ms (0::nat) (0::nat))
                  = Inr [(''rouge_score'', PyFloat (Finite 1))]"
    by (simp add: evaluate_sample_def sample_tasks_def gather_def)
  from inst sample have "set (map fst [(''rouge_score'', PyFloat (Finite 1))])
       = set ?ms \<inter> set supported"
    by blast
  with ev keys nan sample show ?thesis by blast
qed

section \<open>Properties of \<^verbatim>\<open>main\<close>\<close>

lemma evaluate_sample_metrics:
  "map metric_of (fst (evaluate_sample run picks question answer contexts ground_truth metrics
                         llm embeddings)) = filter (\<lambda>m. m \<in> set metrics) supported"
  by (simp add: evaluate_sample_invoked sample_tasks_def supported_def)

lemma evaluate_dataset_metrics:
  "map (map metric_of) (fst (evaluate_dataset run sched dataset metrics llm embeddings)) =
     replicate (length dataset) (filter (\<lambda>m. m \<in> set metrics) supported)"
  by (simp add: evaluate_dataset_fst collect_results_invoked sample_task_def
      evaluate_sample_metrics comp_def map_replicate_const)

lemma metric_config_values:
  "map_of metric_config t = Some ms \<Longrightarrow>
   ms = [''rouge_score'', ''answer_correctness''] \<or>
   ms = [''answer_correctness'', ''coverage_score''] \<or>
   ms = [''answer_correctness'', ''coverage_score'', ''faithfulness'']"
  by (simp add: metric_config_def split: if_splits)

lemma metric_config_supported:
  assumes "map_of metric_config t = Some ms"
  shows "filter (\<lambda>m. m \<in> set ms) supported = ms"
  using metric_config_values [OF assms] by (elim disjE) (simp_all add: supported_def)

lemma evaluate_types_events:
  "\<exists>k \<le> length types.
     fst (evaluate_types w file_data llm embedding types all_results) =
       concat (map (group_invocations w file_data llm embedding) (take k types))"
proof (induction types arbitrary: all_results)
  case Nil
  then show ?case by simp
next
  case (Cons t types)
  show ?case
  proof (cases "file_data t")
    case None
    then show ?thesis by (intro exI [of _ 0]) simp
  next
    case items: (Some items)
    show ?thesis
    proof (cases "map_of metric_config t")
      case None
      with items show ?thesis by (intro exI [of _ 0]) simp
    next
      case ms: (Some ms)
      obtain invoked outcome where ev:
        "evaluate_dataset (run_metric w) (schedules w t) (make_dataset items) ms llm embedding =
           (invoked, outcome)"
        by (cases "evaluate_dataset (run_metric w) (schedules w t) (make_dataset items) ms llm
                     embedding")
      have g: "group_invocations w file_data llm embedding t = map Invoke (concat invoked)"
        using items ms ev by (simp add: group_invocations_def)
      show ?thesis
      proof (cases outcome)
        case (Inl e)
        with items ms ev g show ?thesis
          by (intro exI [of _ "Suc 0"]) simp
      next
        case (Inr results)
        from Cons.IH [of "AList.update t results all_results"] obtain k where
          k: "k \<le> length types" and
          rest: "fst (evaluate_types w file_data llm embedding types
                       (AList.update t results all_results)) =
                 concat (map (group_invocations w file_data llm embedding) (take k types))"
          by blast
        obtain events outcome' where rec:
          "evaluate_types w file_data llm embedding types (AList.update t results all_results) =
             (events, outcome')"
          by (cases "evaluate_types w file_data llm embedding types
                       (AList.update t results all_results)")
        with rest have "events =
            concat (map (group_invocations w file_data llm embedding) (take k types))"
          by simp
        with items ms ev g Inr rec k show ?thesis
          by (intro exI [of _ "Suc k"]) simp
      qed
    qed
  qed
qed

lemma main_body_events:
  assumes "environ w ''OPENAI_API_KEY'' = Some key" and "key \<noteq> []"
    and "json_load w (data_file args) = Inr file_data"
  shows "\<exists>tail. fst (main_body w args) =
           [Load_embedding_model (bge_model args), Read_file (data_file args)] @
           fst (evaluate_types w file_data
                  (ChatOpenAI (model args) (base_url args) (Some key) 0 3 30)
                  (LangchainEmbeddingsWrapper (HuggingFaceBgeEmbeddings (bge_model args)))
                  [''type1'', ''type2'', ''type3'', ''type4''] []) @ tail
         \<and> (tail = [] \<or> (\<exists>all_results. tail = [Write_file (output_file args) all_results]))"
proof -
  have llm: "new_ChatOpenAI (model args) (base_url args) (environ w ''OPENAI_API_KEY'') 0 3 30 =
               Inr (ChatOpenAI (model args) (base_url args) (Some key) 0 3 30)"
    using assms(1,2) by (simp add: new_ChatOpenAI_def)
  obtain events outcome where ev:
    "evaluate_types w file_data
       (ChatOpenAI (model args) (base_url args) (Some key) 0 3 30)
       (LangchainEmbeddingsWrapper (HuggingFaceBgeEmbeddings (bge_model args)))
       [''type1'', ''type2'', ''type3'', ''type4''] [] = (events, outcome)"
    by (cases "evaluate_types w file_data
       (ChatOpenAI (model args) (base_url args) (Some key) 0 3 30)
       (LangchainEmbeddingsWrapper (HuggingFaceBgeEmbeddings (bge_model args)))
       [''type1'', ''type2'', ''type3'', ''type4''] []")
  show ?thesis
  proof (cases outcome)
    case (Inl e)
    have "fst (main_body w args) =
            [Load_embedding_model (bge_model args), Read_file (data_file args)] @ events @ []"
      using assms(3) ev Inl
      by (simp add: main_body_def llm Let_def del: evaluate_types.simps)
    then show ?thesis unfolding ev by (intro exI [of _ "[]"]) simp
  next
    case (Inr all_results)
    have "fst (main_body w args) =
            [Load_embedding_model (bge_model args), Read_file (data_file args)] @ events @
            (if output_file args \<noteq> [] then [Write_file (output_file args) all_results] else [])"
      using assms(3) ev Inr
      by (simp add: main_body_def llm Let_def del: evaluate_types.simps)
    then show ?thesis unfolding ev
      by (intro exI [of _ "if output_file args \<noteq> [] then [Write_file (output_file args) all_results] else []"])
         simp
  qed
qed

section \<open>Claims about \<^verbatim>\<open>main\<close>\<close>

text \<open>
  Claim C4: \<^verbatim>\<open>metric_config\<close> maps \<^verbatim>\<open>type1\<close> and \<^verbatim>\<open>type2\<close> to \<^verbatim>\<open>rouge_score\<close> and
  \<^verbatim>\<open>answer_correctness\<close>, \<^verbatim>\<open>type3\<close> to \<^verbatim>\<open>answer_correctness\<close> and \<^verbatim>\<open>coverage_score\<close>,
  \<^verbatim>\<open>type4\<close> to \<^verbatim>\<open>answer_correctness\<close>, \<^verbatim>\<open>coverage_score\<close> and \<^verbatim>\<open>faithfulness\<close>, and has no
  other key. Evaluating a dataset with the metrics of a question type invokes, for every
  sample, the computers of exactly these metrics. The metric computers that \<^verbatim>\<open>main\<close>
  invokes are those of the question types in their order, up to the one whose evaluation
  raises, each type evaluated on its own samples with its own metrics.
\<close>

theorem metric_config_groups:
  "map_of metric_config ''type1'' = Some [''rouge_score'', ''answer_correctness'']
   \<and> map_of metric_config ''type2'' = Some [''rouge_score'', ''answer_correctness'']
   \<and> map_of metric_config ''type3'' = Some [''answer_correctness'', ''coverage_score'']
   \<and> map_of metric_config ''type4'' =
        Some [''answer_correctness'', ''coverage_score'', ''faithfulness'']
   \<and> map fst metric_config = [''type1'', ''type2'', ''type3'', ''type4'']
   \<and> (\<forall>t ms. map_of metric_config t = Some ms \<longrightarrow>
          map (map metric_of) (fst (evaluate_dataset run sched dataset ms llm embedding)) =
            replicate (length dataset) ms)
   \<and> (\<forall>key file_data.
          environ w ''OPENAI_API_KEY'' = Some key \<and> key \<noteq> [] \<and>
          json_load w (data_file args) = Inr file_data \<longrightarrow>
          (\<exists>k tail. k \<le> 4 \<and>
             fst (main w args) =
               [Load_embedding_model (bge_model args), Read_file (data_file args)] @
               concat (map (group_invocations w file_data
                              (ChatOpenAI (model args) (base_url args) (Some key) 0 3 30)
                              (LangchainEmbeddingsWrapper
                                 (HuggingFaceBgeEmbeddings (bge_model args))))
                           (take k [''type1'', ''type2'', ''type3'', ''type4''])) @ tail
             \<and> (tail = [] \<or> (\<exists>all_results. tail = [Write_file (output_file args) all_results]))))"
proof (intro conjI allI impI)
  fix t ms
  assume "map_of metric_config t = Some ms"
  then show "map (map metric_of) (fst (evaluate_dataset run sched dataset ms llm embedding)) =
               replicate (length dataset) ms"
    by (simp only: evaluate_dataset_metrics metric_config_supported)
next
  fix key file_data
  assume a: "environ w ''OPENAI_API_KEY'' = Some key \<and> key \<noteq> [] \<and>
             json_load w (data_file args) = Inr file_data"
  then have m: "main w args = main_body w args"
    by (simp add: main_def)
  from a have j: "json_load w (data_file args) = Inr file_data" by simp
  from a have key: "environ w ''OPENAI_API_KEY'' = Some key" and ne: "key \<noteq> []" by simp_all
  let ?llm = "ChatOpenAI (model args) (base_url args) (Some key) 0 3 30"
  let ?emb = "LangchainEmbeddingsWrapper (HuggingFaceBgeEmbeddings (bge_model args))"
  from main_body_events [OF key ne j] obtain tail where
    ev: "fst (main_body w args) =
           [Load_embedding_model (bge_model args), Read_file (data_file args)] @
           fst (evaluate_types w file_data ?llm ?emb [''type1'', ''type2'', ''type3'', ''type4''] [])
           @ tail" and
    tail: "tail = [] \<or> (\<exists>all_results. tail = [Write_file (output_file args) all_results])"
    by blast
  from evaluate_types_events [of "[''type1'', ''type2'', ''type3'', ''type4'']" w file_data
      ?llm ?emb "[]"]
  obtain k where
    k: "k \<le> length [''type1'', ''type2'', ''type3'', ''type4'']" and
    inv: "fst (evaluate_types w file_data ?llm ?emb [''type1'', ''type2'', ''type3'', ''type4''] [])
            = concat (map (group_invocations w file_data ?llm ?emb)
                          (take k [''type1'', ''type2'', ''type3'', ''type4'']))"
    by blast
  from k have k4: "k \<le> 4" by simp
  show "\<exists>k tail. k \<le> 4 \<and>
             fst (main w args) =
               [Load_embedding_model (bge_model args), Read_file (data_file args)] @
               concat (map (group_invocations w file_data
                              (ChatOpenAI (model args) (base_url args) (Some key) 0 3 30)
                              (LangchainEmbeddingsWrapper
                                 (HuggingFaceBgeEmbeddings (bge_model args))))
                           (take k [''type1'', ''type2'', ''type3'', ''type4''])) @ tail
             \<and> (tail = [] \<or> (\<exists>all_results. tail = [Write_file (output_file args) all_results]))"
  proof (intro exI [of _ k] exI [of _ tail] conjI)
    show "k \<le> 4" by (rule k4)
    show "fst (main w args) =
               [Load_embedding_model (bge_model args), Read_file (data_file args)] @
               concat (map (group_invocations w file_data
                              (ChatOpenAI (model args) (base_url args) (Some key) 0 3 30)
                              (LangchainEmbeddingsWrapper
                                 (HuggingFaceBgeEmbeddings (bge_model args))))
                           (take k [''type1'', ''type2'', ''type3'', ''type4''])) @ tail"
      using ev inv unfolding m by (simp only:)
    show "tail = [] \<or> (\<exists>all_results. tail = [Write_file (output_file args) all_results])"
      by (rule tail)
  qed
qed (simp_all add: metric_config_def)

theorem metric_config_groups_witness:
  "fst (main example_world example_args) =
     [Load_embedding_model ''BAAI/bge-large-en-v1.5'', Read_file ''data.json'',
      Invoke (compute_answer_correctness ''q'' ''a'' ''g''
                (ChatOpenAI ''gpt-4-turbo'' ''https://api.openai.com/v1'' (Some ''sk-test'') 0 3 30)
                (LangchainEmbeddingsWrapper (HuggingFaceBgeEmbeddings ''BAAI/bge-large-en-v1.5''))),
      Invoke (compute_coverage_score ''q'' ''g'' ''a''
                (ChatOpenAI ''gpt-4-turbo'' ''https://api.openai.com/v1'' (Some ''sk-test'') 0 3 30)),
      Write_file ''evaluation_results.json''
        [(''type1'', [(''rouge_score'', NaN), (''answer_correctness'', NaN)]),
         (''type2'', [(''rouge_score'', NaN), (''answer_correctness'', NaN)]),
         (''type3'', [(''answer_correctness'', Finite 1), (''coverage_score'', Finite 1)]),
         (''type4'', [(''answer_correctness'', NaN), (''coverage_score'', NaN),
                      (''faithfulness'', NaN)])]]
   \<and> map (map metric_of)
         (fst (evaluate_dataset (run_metric example_world) (schedules example_world ''type3'')
                 (make_dataset [\<lparr>item_question = ''q'', item_gold_answer = ''g'',
                                  item_generated_answer = ''a'', item_context = [''c'']\<rparr>])
                 [''answer_correctness'', ''coverage_score'']
                 (ChatOpenAI ''gpt-4-turbo'' ''https://api.openai.com/v1'' (Some ''sk-test'') 0 3 30)
                 (LangchainEmbeddingsWrapper (HuggingFaceBgeEmbeddings ''BAAI/bge-large-en-v1.5''))))
       = [[''answer_correctness'', ''coverage_score'']]
   \<and> (\<exists>k tail. k \<le> 4 \<and>
          fst (main example_world example_args) =
            [Load_embedding_model ''BAAI/bge-large-en-v1.5'', Read_file ''data.json''] @
            concat (map (group_invocations example_world
                           [''type1'' \<mapsto> [], ''type2'' \<mapsto> [],
                            ''type3'' \<mapsto> [\<lparr>item_question = ''q'', item_gold_answer = ''g'',
                                item_generated_answer = ''a'', item_context = [''c'']\<rparr>],
                            ''type4'' \<mapsto> []]
                           (ChatOpenAI ''gpt-4-turbo'' ''https://api.openai.com/v1''
                              (Some ''sk-test'') 0 3 30)
                           (LangchainEmbeddingsWrapper
                              (HuggingFaceBgeEmbeddings ''BAAI/bge-large-en-v1.5'')))
                        (take k [''type1'', ''type2'', ''type3'', ''type4''])) @ tail)"
proof -
  let ?item = "\<lparr>item_question = ''q'', item_gold_answer = ''g'',
                 item_generated_answer = ''a'', item_context = [''c'']\<rparr>"
  let ?fd = "[''type1'' \<mapsto> [], ''type2'' \<mapsto> [], ''type3'' \<mapsto> [?item], ''type4'' \<mapsto> []]"
  let ?llm = "ChatOpenAI ''gpt-4-turbo'' ''https://api.openai.com/v1'' (Some ''sk-test'') 0 3 30"
  let ?emb = "LangchainEmbeddingsWrapper (HuggingFaceBgeEmbeddings ''BAAI/bge-large-en-v1.5'')"
  note inst = metric_config_groups
    [where w = example_world and args = example_args and run = "run_metric example_world"
       and sched = "schedules example_world ''type3''" and dataset = "make_dataset [?item]"
       and llm = ?llm and embedding = ?emb]
  have one: "round64 1 = Finite 1"
    using round64_small_int [of 1] by simp
  have mean_none: "np_nanmean [] = Inr NaN"
    by (rule np_nanmean_Nil)
  have mean_one: "np_nanmean [PyFloat (Finite 1)] = Inr (Finite 1)"
    using one by (simp add: np_nanmean_def integer_array_def pairwise_short seq_sum_def)
  have run: "fst (main example_world example_args) =
     [Load_embedding_model ''BAAI/bge-large-en-v1.5'', Read_file ''data.json'',
      Invoke (compute_answer_correctness ''q'' ''a'' ''g'' ?llm ?emb),
      Invoke (compute_coverage_score ''q'' ''g'' ''a'' ?llm),
      Write_file ''evaluation_results.json''
        [(''type1'', [(''rouge_score'', NaN), (''answer_correctness'', NaN)]),
         (''type2'', [(''rouge_score'', NaN), (''answer_correctness'', NaN)]),
         (''type3'', [(''answer_correctness'', Finite 1), (''coverage_score'', Finite 1)]),
         (''type4'', [(''answer_correctness'', NaN), (''coverage_score'', NaN),
                      (''faithfulness'', NaN)])]]"
    using mean_none mean_one
    by (simp add: example_world_def example_args_def main_def main_body_def new_ChatOpenAI_def
        metric_config_def evaluate_dataset_def collect_results_def make_dataset_def
        evaluate_sample_def sample_tasks_def gather_def aggregate_def init_results_def
        Let_def)
  from inst have cfg: "map_of metric_config ''type3'' = Some [''answer_correctness'', ''coverage_score'']"
    by blast
  from inst cfg have per_sample:
    "map (map metric_of)
       (fst (evaluate_dataset (run_metric example_world) (schedules example_world ''type3'')
               (make_dataset [?item]) [''answer_correctness'', ''coverage_score''] ?llm ?emb))
     = replicate (length (make_dataset [?item])) [''answer_correctness'', ''coverage_score'']"
    by blast
  then have per_sample': "map (map metric_of)
       (fst (evaluate_dataset (run_metric example_world) (schedules example_world ''type3'')
               (make_dataset [?item]) [''answer_correctness'', ''coverage_score''] ?llm ?emb))
     = [[''answer_correctness'', ''coverage_score'']]"
    by (simp add: make_dataset_def)
  have hyp: "environ example_world ''OPENAI_API_KEY'' = Some ''sk-test'' \<and> ''sk-test'' \<noteq> [] \<and>
             json_load example_world (data_file example_args) = Inr ?fd"
    by (simp add: example_world_def)
  from inst hyp obtain k tail where "k \<le> 4" and
    "fst (main example_world example_args) =
       [Load_embedding_model (bge_model example_args), Read_file (data_file example_args)] @
       concat (map (group_invocations example_world ?fd
                      (ChatOpenAI (model example_args) (base_url example_args) (Some ''sk-test'')
                         0 3 30)
                      (LangchainEmbeddingsWrapper (HuggingFaceBgeEmbeddings (bge_model example_args))))
                   (take k [''type1'', ''type2'', ''type3'', ''type4''])) @ tail"
    by blast
  then have "\<exists>k tail. k \<le> 4 \<and> fst (main example_world example_args) =
            [Load_embedding_model ''BAAI/bge-large-en-v1.5'', Read_file ''data.json''] @
            concat (map (group_invocations example_world ?fd ?llm ?emb)
                        (take k [''type1'', ''type2'', ''type3'', ''type4''])) @ tail"
    by (intro exI [of _ k] exI [of _ tail]) (simp add: example_args_def)
  with run per_sample' show ?thesis by (intro conjI)
qed

text \<open>
  Claim C9: when \<^verbatim>\<open>OPENAI_API_KEY\<close> is absent from the environment, which for the check
  of \<^verbatim>\<open>main\<close> is a variable that is not set or is set to the empty string, \<^verbatim>\<open>main\<close> raises
  \<^verbatim>\<open>ValueError\<close> with a message that names the variable, and has done nothing before: no
  model is loaded, no file is read or written and no metric computer is invoked. When the
  variable holds a key, \<^verbatim>\<open>main\<close> is the rest of \<^verbatim>\<open>main\<close>: the check changes nothing.
\<close>

theorem main_requires_api_key:
  "(environ w ''OPENAI_API_KEY'' = None \<or> environ w ''OPENAI_API_KEY'' = Some [] \<longrightarrow>
      main w args = ([], Inl (ValueError ''OPENAI_API_KEY environment variable is not set'')))
   \<and> (\<forall>key. environ w ''OPENAI_API_KEY'' = Some key \<and> key \<noteq> [] \<longrightarrow>
          main w args = main_body w args)"
  by (auto simp: main_def)

theorem main_requires_api_key_witness:
  "main (example_world\<lparr>environ := Map.empty\<rparr>) example_args
     = ([], Inl (ValueError ''OPENAI_API_KEY environment variable is not set''))
   \<and> main (example_world\<lparr>environ := [''OPENAI_API_KEY'' \<mapsto> []]\<rparr>) example_args
     = ([], Inl (ValueError ''OPENAI_API_KEY environment variable is not set''))
   \<and> environ example_world ''OPENAI_API_KEY'' = Some ''sk-test''
   \<and> main example_world example_args = main_body example_world example_args"
proof -
  have none: "environ (example_world\<lparr>environ := Map.empty\<rparr>) ''OPENAI_API_KEY'' = None \<or>
              environ (example_world\<lparr>environ := Map.empty\<rparr>) ''OPENAI_API_KEY'' = Some []"
    by simp
  have empty:
    "environ (example_world\<lparr>environ := [''OPENAI_API_KEY'' \<mapsto> []]\<rparr>) ''OPENAI_API_KEY'' = None \<or>
     environ (example_world\<lparr>environ := [''OPENAI_API_KEY'' \<mapsto> []]\<rparr>) ''OPENAI_API_KEY'' = Some []"
    by simp
  have some: "environ example_world ''OPENAI_API_KEY'' = Some ''sk-test'' \<and> ''sk-test'' \<noteq> []"
    by (simp add: example_world_def)
  from main_requires_api_key [of "example_world\<lparr>environ := Map.empty\<rparr>" example_args] none
  have a: "main (example_world\<lparr>environ := Map.empty\<rparr>) example_args
     = ([], Inl (ValueError ''OPENAI_API_KEY environment variable is not set''))"
    by blast
  from main_requires_api_key
         [of "example_world\<lparr>environ := [''OPENAI_API_KEY'' \<mapsto> []]\<rparr>" example_args] empty
  have b: "main (example_world\<lparr>environ := [''OPENAI_API_KEY'' \<mapsto> []]\<rparr>) example_args
     = ([], Inl (ValueError ''OPENAI_API_KEY environment variable is not set''))"
    by blast
  from main_requires_api_key [of example_world example_args] some
  have c: "main example_world example_args = main_body example_world example_args"
    by blast
  from a b some c show ?thesis by blast
qed

end
